theory Spec2Isabelle
  imports Complex_Main
begin

section \<open>Values and numbers\<close>

text \<open>
  The module \<^verbatim>\<open>db.py\<close> talks to a PostgreSQL store through parameterised SQL
  statements. The model keeps the two tables the balance ledger and the referral engine
  use, the module flag \<^verbatim>\<open>_db_enabled\<close>, and turns every statement into a function on
  the table it touches. A statement that the store refuses (a value that does not fit its
  column, a violated \<^verbatim>\<open>CHECK\<close>) raises in Python; here it is an \<open>Inl\<close> result and
  the table is left as it was.

  A failure of the connection itself is outside the model. \<^verbatim>\<open>NOW()\<close> is a parameter
  \<open>now\<close> of every operation that writes. \<^verbatim>\<open>_db_enabled\<close> is set only once the
  pool exists, so the pool is not a part of the state.
\<close>

datatype error = NumericValueOutOfRange | CheckViolation

subsection \<open>Floats\<close>

text \<open>
  The amounts of the balance ledger are Python floats, and the balances it keeps are
  \<^verbatim>\<open>NUMERIC\<close> values of the store. A value of either kind is a number or the
  not-a-number \<open>NaN\<close>, which both Python and PostgreSQL have. The two infinities are
  left out of the model: a \<^verbatim>\<open>NUMERIC(p,s)\<close> column refuses them, so no row ever
  holds one, and whether an infinite amount reaches the store at all depends on the driver.
\<close>

datatype num = Num real | NaN

text \<open>\<^verbatim>\<open>a <= b\<close> on Python floats: every comparison with \<open>NaN\<close> is false.\<close>

fun py_le :: "num \<Rightarrow> num \<Rightarrow> bool" where
  "py_le (Num x) (Num y) = (x \<le> y)"
| "py_le a b = False"

text \<open>
  The float nearest to a real number (ties to the even mantissa): a float has 53
  significant binary digits. The range of the exponent is not modelled; the model applies
  \<open>dbl\<close> to decimal amounts and balances only, far from both ends of that range.
\<close>

definition round_half_even :: "real \<Rightarrow> int" where
  "round_half_even x =
     (let f = \<lfloor>x\<rfloor>; d = x - of_int f
      in if d < 1 / 2 then f else if 1 / 2 < d then f + 1 else if even f then f else f + 1)"

definition dbl :: "real \<Rightarrow> real" where
  "dbl x =
     (if x = 0 then 0
      else (let q = 2 powi (\<lfloor>log 2 \<bar>x\<bar>\<rfloor> - 52)
            in of_int (round_half_even (x / q)) * q))"

text \<open>The float a decimal literal of a program denotes, and \<^verbatim>\<open>float(v)\<close> of a
  \<^verbatim>\<open>Decimal\<close> the store handed back.\<close>

definition py_float :: "real \<Rightarrow> num" where
  "py_float x = Num (dbl x)"

fun to_float :: "num \<Rightarrow> num" where
  "to_float (Num x) = Num (dbl x)"
| "to_float NaN = NaN"

text \<open>
  Python's \<^verbatim>\<open>round(x, n)\<close> of a float: the value of \<open>x\<close> is rounded to the nearest
  multiple of \<open>10\<^sup>-\<^sup>n\<close>, ties to even (\<open>round_decimal\<close>), and the result is the float
  nearest to that decimal. \<^verbatim>\<open>round(nan, n)\<close> is \<^verbatim>\<open>nan\<close>.
\<close>

definition round_decimal :: "real \<Rightarrow> nat \<Rightarrow> real" where
  "round_decimal x n = of_int (round_half_even (x * 10 ^ n)) / 10 ^ n"

fun py_round :: "num \<Rightarrow> nat \<Rightarrow> num" where
  "py_round (Num x) n = Num (dbl (round_decimal x n))"
| "py_round NaN n = NaN"

subsection \<open>\<^verbatim>\<open>NUMERIC\<close> values\<close>

text \<open>
  A column declared \<^verbatim>\<open>NUMERIC(p,s)\<close> rounds what is assigned to it to \<open>s\<close>
  fractional digits (ties away from zero) and refuses a value that then needs more than
  \<open>p\<close> digits. The driver sends a float parameter as the exact value of the float.
\<close>

definition round_half_away :: "real \<Rightarrow> int" where
  "round_half_away x = (if 0 \<le> x then \<lfloor>x + 1 / 2\<rfloor> else - \<lfloor>- x + 1 / 2\<rfloor>)"

definition numeric :: "nat \<Rightarrow> nat \<Rightarrow> real \<Rightarrow> error + real" where
  "numeric p s x =
     (let k = round_half_away (x * 10 ^ s)
      in if 10 ^ p \<le> \<bar>k\<bar> then Inl NumericValueOutOfRange else Inr (of_int k / 10 ^ s))"

text \<open>A nullable \<^verbatim>\<open>NUMERIC(p,s)\<close> column: \<^verbatim>\<open>NULL\<close> is stored as it is.\<close>

definition numeric_null :: "nat \<Rightarrow> nat \<Rightarrow> real option \<Rightarrow> error + real option" where
  "numeric_null p s x =
     (case x of
        None \<Rightarrow> Inr None
      | Some v \<Rightarrow> (case numeric p s v of Inl e \<Rightarrow> Inl e | Inr w \<Rightarrow> Inr (Some w)))"

text \<open>
  A \<^verbatim>\<open>NUMERIC(p,s)\<close> column takes \<open>NaN\<close> as it is. In the store's arithmetic a sum
  or a difference with \<open>NaN\<close> is \<open>NaN\<close>, and in its order \<open>NaN\<close> equals
  \<open>NaN\<close> and is greater than every number.
\<close>

fun numeric_num :: "nat \<Rightarrow> nat \<Rightarrow> num \<Rightarrow> error + num" where
  "numeric_num p s (Num x) = (case numeric p s x of Inl e \<Rightarrow> Inl e | Inr w \<Rightarrow> Inr (Num w))"
| "numeric_num p s NaN = Inr NaN"

fun sql_add :: "num \<Rightarrow> num \<Rightarrow> num" where
  "sql_add (Num x) (Num y) = Num (x + y)"
| "sql_add a b = NaN"

fun sql_sub :: "num \<Rightarrow> num \<Rightarrow> num" where
  "sql_sub (Num x) (Num y) = Num (x - y)"
| "sql_sub a b = NaN"

fun sql_ge :: "num \<Rightarrow> num \<Rightarrow> bool" where
  "sql_ge (Num x) (Num y) = (y \<le> x)"
| "sql_ge NaN b = True"
| "sql_ge (Num x) NaN = False"

text \<open>The number a value stands for (0 for \<open>NaN\<close>).\<close>

fun val :: "num \<Rightarrow> real" where
  "val (Num x) = x"
| "val NaN = 0"

subsection \<open>Python values\<close>

text \<open>
  The Python values \<^verbatim>\<open>_row_to_ref\<close> tells apart by their run-time type, and the
  values \<^verbatim>\<open>json.loads\<close> can return.
\<close>

datatype pyval =
    PNone
  | PBool bool
  | PInt int
  | PFloat real
  | PStr string
  | PList "pyval list"
  | PTuple "pyval list"
  | PDict "(string \<times> pyval) list"

fun truthy :: "pyval \<Rightarrow> bool" where
  "truthy PNone = False"
| "truthy (PBool b) = b"
| "truthy (PInt i) = (i \<noteq> 0)"
| "truthy (PFloat x) = (x \<noteq> 0)"
| "truthy (PStr s) = (s \<noteq> [])"
| "truthy (PList xs) = (xs \<noteq> [])"
| "truthy (PTuple xs) = (xs \<noteq> [])"
| "truthy (PDict kvs) = (kvs \<noteq> [])"

text \<open>\<^verbatim>\<open>a or b\<close>\<close>

definition py_or :: "pyval \<Rightarrow> pyval \<Rightarrow> pyval" where
  "py_or a b = (if truthy a then a else b)"

fun is_list :: "pyval \<Rightarrow> bool" where
  "is_list (PList xs) = True"
| "is_list v = False"


section \<open>The store\<close>

text \<open>
  \<^verbatim>\<open>user_balances\<close>: \<^verbatim>\<open>balance_rub NUMERIC(12,2) NOT NULL DEFAULT 0 CHECK (balance_rub >= 0)\<close>,
  \<^verbatim>\<open>balance_usdt NUMERIC(12,6) NOT NULL DEFAULT 0 CHECK (balance_usdt >= 0)\<close>,
  \<^verbatim>\<open>updated_at\<close>; the key \<^verbatim>\<open>user_id\<close> is the key of the map. The first two
  fields alone are the dictionary the balance functions return; there they are floats.
\<close>

record balance =
  balance_rub :: num
  balance_usdt :: num

record balance_row = balance +
  updated_at :: nat

text \<open>
  \<^verbatim>\<open>referrals\<close>, as \<^verbatim>\<open>SELECT *\<close> hands a row back to Python: a nullable
  \<^verbatim>\<open>TEXT\<close> or \<^verbatim>\<open>NUMERIC(12,2)\<close> column is \<open>None\<close> when \<^verbatim>\<open>NULL\<close>; a
  \<^verbatim>\<open>JSONB\<close> column arrives as the Python value the driver decodes it to (by default
  the JSON text, a \<open>PStr\<close>, or \<open>PNone\<close> for \<^verbatim>\<open>NULL\<close>). The store hands back
  the JSON text it was given (PostgreSQL hands back a normalised text of the same JSON
  value; the model does not tell the two apart). The earnings and volumes of the referral
  engine, stored and passed, are read as the real numbers they stand for.
\<close>

record referral_row =
  col_parent1 :: "string option"
  col_parent2 :: "string option"
  col_parent3 :: "string option"
  col_referrals_l1 :: pyval
  col_referrals_l2 :: pyval
  col_referrals_l3 :: pyval
  col_earned_rub :: "real option"
  col_volume_rub :: "real option"
  col_username :: "string option"
  col_first_name :: "string option"
  col_updated_at :: nat

record db =
  db_enabled :: bool
  user_balances :: "string \<rightharpoonup> balance_row"
  referrals :: "string \<rightharpoonup> referral_row"

text \<open>The referral record: the dictionary \<^verbatim>\<open>_row_to_ref\<close> builds and
  \<^verbatim>\<open>ref_save\<close> reads. \<^verbatim>\<open>username\<close> and \<^verbatim>\<open>first_name\<close> are \<open>None\<close> when
  the key is absent or holds \<^verbatim>\<open>None\<close>.\<close>

record ref =
  parent1 :: "string option"
  parent2 :: "string option"
  parent3 :: "string option"
  referrals_l1 :: pyval
  referrals_l2 :: pyval
  referrals_l3 :: pyval
  earned_rub :: real
  volume_rub :: real
  username :: "string option"
  first_name :: "string option"

subsection \<open>Statements on \<^verbatim>\<open>user_balances\<close>\<close>

text \<open>The two \<^verbatim>\<open>CHECK\<close> constraints, tested on every row the store is about to write.\<close>

definition check_balance_row :: "balance_row \<Rightarrow> error + balance_row" where
  "check_balance_row row =
     (if sql_ge (balance_rub row) (Num 0) \<and> sql_ge (balance_usdt row) (Num 0) then Inr row
      else Inl CheckViolation)"

text \<open>Assigning \<open>v\<close> to \<^verbatim>\<open>balance_rub\<close> (or \<^verbatim>\<open>balance_usdt\<close>) of a row, with
  \<^verbatim>\<open>updated_at = NOW()\<close>.\<close>

definition set_balance_rub :: "nat \<Rightarrow> balance_row \<Rightarrow> num \<Rightarrow> error + balance_row" where
  "set_balance_rub now row v =
     (case numeric_num 12 2 v of
        Inl e \<Rightarrow> Inl e
      | Inr b \<Rightarrow> check_balance_row (row\<lparr>balance_rub := b, updated_at := now\<rparr>))"

definition set_balance_usdt :: "nat \<Rightarrow> balance_row \<Rightarrow> num \<Rightarrow> error + balance_row" where
  "set_balance_usdt now row v =
     (case numeric_num 12 6 v of
        Inl e \<Rightarrow> Inl e
      | Inr b \<Rightarrow> check_balance_row (row\<lparr>balance_usdt := b, updated_at := now\<rparr>))"

definition new_balance_row :: "nat \<Rightarrow> balance_row" where
  "new_balance_row now = \<lparr>balance_rub = Num 0, balance_usdt = Num 0, updated_at = now\<rparr>"

text \<open>
  \<^verbatim>\<open>INSERT INTO user_balances (user_id, balance_rub, balance_usdt) VALUES ($1, $2, 0)
  ON CONFLICT (user_id) DO UPDATE SET balance_rub = user_balances.balance_rub +
  EXCLUDED.balance_rub, updated_at = NOW()\<close>. The row proposed for insertion
  (\<^verbatim>\<open>EXCLUDED\<close>) is built and checked first.
\<close>

definition upsert_add_rub ::
  "nat \<Rightarrow> (string \<rightharpoonup> balance_row) \<Rightarrow> string \<Rightarrow> num \<Rightarrow> error + (string \<rightharpoonup> balance_row)" where
  "upsert_add_rub now t user_id amount =
     (case set_balance_rub now (new_balance_row now) amount of
        Inl e \<Rightarrow> Inl e
      | Inr excluded \<Rightarrow>
          (case t user_id of
             None \<Rightarrow> Inr (t(user_id \<mapsto> excluded))
           | Some row \<Rightarrow>
               (case set_balance_rub now row (sql_add (balance_rub row) (balance_rub excluded)) of
                  Inl e \<Rightarrow> Inl e
                | Inr row' \<Rightarrow> Inr (t(user_id \<mapsto> row')))))"

definition upsert_add_usdt ::
  "nat \<Rightarrow> (string \<rightharpoonup> balance_row) \<Rightarrow> string \<Rightarrow> num \<Rightarrow> error + (string \<rightharpoonup> balance_row)" where
  "upsert_add_usdt now t user_id amount =
     (case set_balance_usdt now (new_balance_row now) amount of
        Inl e \<Rightarrow> Inl e
      | Inr excluded \<Rightarrow>
          (case t user_id of
             None \<Rightarrow> Inr (t(user_id \<mapsto> excluded))
           | Some row \<Rightarrow>
               (case set_balance_usdt now row
                       (sql_add (balance_usdt row) (balance_usdt excluded)) of
                  Inl e \<Rightarrow> Inl e
                | Inr row' \<Rightarrow> Inr (t(user_id \<mapsto> row')))))"

text \<open>
  \<^verbatim>\<open>UPDATE user_balances SET balance_rub = balance_rub - $2, updated_at = NOW()
  WHERE user_id = $1 AND balance_rub >= $2 RETURNING balance_rub, balance_usdt\<close>:
  the new table and the returned row, \<open>None\<close> when no row matched.
\<close>

definition update_deduct_rub ::
  "nat \<Rightarrow> (string \<rightharpoonup> balance_row) \<Rightarrow> string \<Rightarrow> num
     \<Rightarrow> error + ((string \<rightharpoonup> balance_row) \<times> balance_row option)" where
  "update_deduct_rub now t user_id amount =
     (case t user_id of
        None \<Rightarrow> Inr (t, None)
      | Some row \<Rightarrow>
          if sql_ge (balance_rub row) amount
          then (case set_balance_rub now row (sql_sub (balance_rub row) amount) of
                  Inl e \<Rightarrow> Inl e
                | Inr row' \<Rightarrow> Inr (t(user_id \<mapsto> row'), Some row'))
          else Inr (t, None))"

definition update_deduct_usdt ::
  "nat \<Rightarrow> (string \<rightharpoonup> balance_row) \<Rightarrow> string \<Rightarrow> num
     \<Rightarrow> error + ((string \<rightharpoonup> balance_row) \<times> balance_row option)" where
  "update_deduct_usdt now t user_id amount =
     (case t user_id of
        None \<Rightarrow> Inr (t, None)
      | Some row \<Rightarrow>
          if sql_ge (balance_usdt row) amount
          then (case set_balance_usdt now row (sql_sub (balance_usdt row) amount) of
                  Inl e \<Rightarrow> Inl e
                | Inr row' \<Rightarrow> Inr (t(user_id \<mapsto> row'), Some row'))
          else Inr (t, None))"

section \<open>User balances\<close>

text \<open>The dictionary built from a row: \<^verbatim>\<open>{"balance_rub": float(row["balance_rub"] or 0),
  "balance_usdt": float(row["balance_usdt"] or 0)}\<close>. A stored zero is replaced by the
  integer 0, whose float is the same.\<close>

definition balance_of_row :: "balance_row \<Rightarrow> balance" where
  "balance_of_row row =
     \<lparr>balance_rub = to_float (balance_rub row), balance_usdt = to_float (balance_usdt row)\<rparr>"

definition balance_get :: "db \<Rightarrow> string \<Rightarrow> balance" where
  "balance_get s user_id =
     (if \<not> db_enabled s then \<lparr>balance_rub = Num 0, balance_usdt = Num 0\<rparr>
      else (case user_balances s user_id of
              None \<Rightarrow> \<lparr>balance_rub = Num 0, balance_usdt = Num 0\<rparr>
            | Some row \<Rightarrow> balance_of_row row))"

definition balance_add_rub :: "nat \<Rightarrow> db \<Rightarrow> string \<Rightarrow> num \<Rightarrow> (error + bool) \<times> db" where
  "balance_add_rub now s user_id amount =
     (if \<not> db_enabled s \<or> py_le amount (Num 0) then (Inr False, s)
      else (case upsert_add_rub now (user_balances s) user_id (py_round amount 2) of
              Inl e \<Rightarrow> (Inl e, s)
            | Inr t \<Rightarrow> (Inr True, s\<lparr>user_balances := t\<rparr>)))"

definition balance_add_usdt :: "nat \<Rightarrow> db \<Rightarrow> string \<Rightarrow> num \<Rightarrow> (error + bool) \<times> db" where
  "balance_add_usdt now s user_id amount =
     (if \<not> db_enabled s \<or> py_le amount (Num 0) then (Inr False, s)
      else (case upsert_add_usdt now (user_balances s) user_id (py_round amount 6) of
              Inl e \<Rightarrow> (Inl e, s)
            | Inr t \<Rightarrow> (Inr True, s\<lparr>user_balances := t\<rparr>)))"

text \<open>When the \<^verbatim>\<open>UPDATE\<close> matched no row, \<^verbatim>\<open>balance_deduct_rub\<close> reads the
  balance once more and drops what it read.\<close>

definition balance_deduct_rub ::
  "nat \<Rightarrow> db \<Rightarrow> string \<Rightarrow> num \<Rightarrow> (error + balance option) \<times> db" where
  "balance_deduct_rub now s user_id amount =
     (if \<not> db_enabled s \<or> py_le amount (Num 0) then (Inr None, s)
      else (case update_deduct_rub now (user_balances s) user_id (py_round amount 2) of
              Inl e \<Rightarrow> (Inl e, s)
            | Inr (t, None) \<Rightarrow>
                (let row = t user_id in (Inr None, s\<lparr>user_balances := t\<rparr>))
            | Inr (t, Some row) \<Rightarrow> (Inr (Some (balance_of_row row)), s\<lparr>user_balances := t\<rparr>)))"

definition balance_deduct_usdt ::
  "nat \<Rightarrow> db \<Rightarrow> string \<Rightarrow> num \<Rightarrow> (error + balance option) \<times> db" where
  "balance_deduct_usdt now s user_id amount =
     (if \<not> db_enabled s \<or> py_le amount (Num 0) then (Inr None, s)
      else (case update_deduct_usdt now (user_balances s) user_id (py_round amount 6) of
              Inl e \<Rightarrow> (Inl e, s)
            | Inr (t, None) \<Rightarrow> (Inr None, s\<lparr>user_balances := t\<rparr>)
            | Inr (t, Some row) \<Rightarrow> (Inr (Some (balance_of_row row)), s\<lparr>user_balances := t\<rparr>)))"

text \<open>A sequence of credit and debit calls, each with the time it runs at; a call that
  raises leaves the store as it was and the sequence goes on.\<close>

datatype ledger_op =
    AddRub string num
  | AddUsdt string num
  | DeductRub string num
  | DeductUsdt string num

fun apply_op :: "nat \<Rightarrow> db \<Rightarrow> ledger_op \<Rightarrow> db" where
  "apply_op now s (AddRub u a) = snd (balance_add_rub now s u a)"
| "apply_op now s (AddUsdt u a) = snd (balance_add_usdt now s u a)"
| "apply_op now s (DeductRub u a) = snd (balance_deduct_rub now s u a)"
| "apply_op now s (DeductUsdt u a) = snd (balance_deduct_usdt now s u a)"

fun run_ops :: "db \<Rightarrow> (nat \<times> ledger_op) list \<Rightarrow> db" where
  "run_ops s [] = s"
| "run_ops s ((now, x) # xs) = run_ops (apply_op now s x) xs"

text \<open>A credit of \<open>NaN\<close>.\<close>

fun credits_nan :: "ledger_op \<Rightarrow> bool" where
  "credits_nan (AddRub u NaN) = True"
| "credits_nan (AddUsdt u NaN) = True"
| "credits_nan x = False"

text \<open>A stored balance that is a number, fits its column and is not negative; a row,
  and a store, whose balances all are.\<close>

fun fits :: "nat \<Rightarrow> nat \<Rightarrow> num \<Rightarrow> bool" where
  "fits p s (Num x) = (numeric p s x = Inr x \<and> 0 \<le> x)"
| "fits p s NaN = False"

definition wf_balance_row :: "balance_row \<Rightarrow> bool" where
  "wf_balance_row row \<longleftrightarrow> fits 12 2 (balance_rub row) \<and> fits 12 6 (balance_usdt row)"

definition wf_balances :: "db \<Rightarrow> bool" where
  "wf_balances s = (\<forall>u row. user_balances s u = Some row \<longrightarrow> wf_balance_row row)"

text \<open>The stored balance of a user in a currency, as a number (0 without a row), and the
  same field of a returned balance.\<close>

datatype currency = Rub | Usdt

definition digits :: "currency \<Rightarrow> nat" where
  "digits c = (case c of Rub \<Rightarrow> 2 | Usdt \<Rightarrow> 6)"

definition amount_in :: "currency \<Rightarrow> 'a balance_scheme \<Rightarrow> num" where
  "amount_in c b = (case c of Rub \<Rightarrow> balance_rub b | Usdt \<Rightarrow> balance_usdt b)"

definition stored :: "currency \<Rightarrow> db \<Rightarrow> string \<Rightarrow> real" where
  "stored c s u = (case user_balances s u of None \<Rightarrow> 0 | Some row \<Rightarrow> val (amount_in c row))"

text \<open>An enabled store that holds one balance row and no referral row, and the store
  right after the schema has been created.\<close>

definition single_balance :: "string \<Rightarrow> num \<Rightarrow> num \<Rightarrow> db" where
  "single_balance u r d =
     \<lparr>db_enabled = True,
      user_balances = [u \<mapsto> \<lparr>balance_rub = r, balance_usdt = d, updated_at = 0\<rparr>],
      referrals = Map.empty\<rparr>"

definition fresh_db :: db where
  "fresh_db = \<lparr>db_enabled = True, user_balances = Map.empty, referrals = Map.empty\<rparr>"

text \<open>An enabled store that holds one referral row and no balance row.\<close>

definition single_referral :: "string \<Rightarrow> referral_row \<Rightarrow> db" where
  "single_referral u row =
     \<lparr>db_enabled = True, user_balances = Map.empty, referrals = [u \<mapsto> row]\<rparr>"

section \<open>Referrals\<close>

subsection \<open>Statements on \<^verbatim>\<open>referrals\<close>\<close>

text \<open>
  \<^verbatim>\<open>INSERT INTO referrals (user_id, referrals_l1, referrals_l2, referrals_l3)
  VALUES ($1, '[]', '[]', '[]') ON CONFLICT (user_id) DO NOTHING\<close>; the other columns
  take their defaults.
\<close>

definition default_referral_row :: "nat \<Rightarrow> referral_row" where
  "default_referral_row now =
     \<lparr>col_parent1 = None, col_parent2 = None, col_parent3 = None,
      col_referrals_l1 = PStr ''[]'', col_referrals_l2 = PStr ''[]'',
      col_referrals_l3 = PStr ''[]'',
      col_earned_rub = Some 0, col_volume_rub = Some 0,
      col_username = Some [], col_first_name = Some [],
      col_updated_at = now\<rparr>"

definition insert_referral_default ::
  "nat \<Rightarrow> (string \<rightharpoonup> referral_row) \<Rightarrow> string \<Rightarrow> (string \<rightharpoonup> referral_row)" where
  "insert_referral_default now t user_id =
     (case t user_id of
        Some row \<Rightarrow> t
      | None \<Rightarrow> t(user_id \<mapsto> default_referral_row now))"

text \<open>
  \<^verbatim>\<open>INSERT INTO referrals (...) VALUES ($1, ..., $11) ON CONFLICT (user_id) DO UPDATE
  SET parent1 = EXCLUDED.parent1, ..., first_name = EXCLUDED.first_name,
  updated_at = NOW()\<close>. \<open>vals\<close> holds the ten values given; the two amounts are
  brought to \<^verbatim>\<open>NUMERIC(12,2)\<close> in the proposed row.
\<close>

definition upsert_referral ::
  "nat \<Rightarrow> (string \<rightharpoonup> referral_row) \<Rightarrow> string \<Rightarrow> referral_row
     \<Rightarrow> error + (string \<rightharpoonup> referral_row)" where
  "upsert_referral now t user_id vals =
     (case numeric_null 12 2 (col_earned_rub vals) of
        Inl e \<Rightarrow> Inl e
      | Inr earned \<Rightarrow>
          (case numeric_null 12 2 (col_volume_rub vals) of
             Inl e \<Rightarrow> Inl e
           | Inr volume \<Rightarrow>
               (let excluded =
                      vals\<lparr>col_earned_rub := earned, col_volume_rub := volume,
                           col_updated_at := now\<rparr>
                in case t user_id of
                     None \<Rightarrow> Inr (t(user_id \<mapsto> excluded))
                   | Some row \<Rightarrow>
                       Inr (t(user_id \<mapsto> row
                         \<lparr>col_parent1 := col_parent1 excluded,
                          col_parent2 := col_parent2 excluded,
                          col_parent3 := col_parent3 excluded,
                          col_referrals_l1 := col_referrals_l1 excluded,
                          col_referrals_l2 := col_referrals_l2 excluded,
                          col_referrals_l3 := col_referrals_l3 excluded,
                          col_earned_rub := col_earned_rub excluded,
                          col_volume_rub := col_volume_rub excluded,
                          col_username := col_username excluded,
                          col_first_name := col_first_name excluded,
                          col_updated_at := now\<rparr>)))))"

text \<open>\<^verbatim>\<open>column + $n\<close> assigned back to a nullable \<^verbatim>\<open>NUMERIC(12,2)\<close> column;
  \<^verbatim>\<open>NULL + x\<close> is \<^verbatim>\<open>NULL\<close>.\<close>

definition add_to_column :: "real option \<Rightarrow> real \<Rightarrow> error + real option" where
  "add_to_column c delta = numeric_null 12 2 (map_option (\<lambda>v. v + delta) c)"

text \<open>
  \<^verbatim>\<open>UPDATE referrals SET volume_rub = volume_rub + $2, earned_rub = earned_rub + $3,
  updated_at = NOW() WHERE user_id = $1\<close>
\<close>

definition update_add_earned ::
  "nat \<Rightarrow> (string \<rightharpoonup> referral_row) \<Rightarrow> string \<Rightarrow> real \<Rightarrow> real
     \<Rightarrow> error + (string \<rightharpoonup> referral_row)" where
  "update_add_earned now t user_id volume_delta earned_delta =
     (case t user_id of
        None \<Rightarrow> Inr t
      | Some row \<Rightarrow>
          (case add_to_column (col_volume_rub row) volume_delta of
             Inl e \<Rightarrow> Inl e
           | Inr volume \<Rightarrow>
               (case add_to_column (col_earned_rub row) earned_delta of
                  Inl e \<Rightarrow> Inl e
                | Inr earned \<Rightarrow>
                    Inr (t(user_id \<mapsto> row
                      \<lparr>col_volume_rub := volume, col_earned_rub := earned,
                       col_updated_at := now\<rparr>)))))"

text \<open>\<^verbatim>\<open>UPDATE referrals SET earned_rub = $2, updated_at = NOW() WHERE user_id = $1\<close>\<close>

definition update_set_earned ::
  "nat \<Rightarrow> (string \<rightharpoonup> referral_row) \<Rightarrow> string \<Rightarrow> real
     \<Rightarrow> error + (string \<rightharpoonup> referral_row)" where
  "update_set_earned now t user_id earned =
     (case t user_id of
        None \<Rightarrow> Inr t
      | Some row \<Rightarrow>
          (case numeric 12 2 earned of
             Inl e \<Rightarrow> Inl e
           | Inr v \<Rightarrow> Inr (t(user_id \<mapsto> row\<lparr>col_earned_rub := Some v, col_updated_at := now\<rparr>))))"

subsection \<open>Reading a row\<close>

text \<open>
  The body of the loop over \<^verbatim>\<open>referrals_l1\<close>, \<^verbatim>\<open>referrals_l2\<close>,
  \<^verbatim>\<open>referrals_l3\<close> in \<^verbatim>\<open>_row_to_ref\<close>. \<open>loads\<close> is \<^verbatim>\<open>json.loads\<close>, a parameter
  of the model: \<open>None\<close> where it raises. A tuple and a dictionary are the values with
  \<^verbatim>\<open>__iter__\<close> that are neither a list nor a string; \<^verbatim>\<open>list(v)\<close> of a dictionary is
  the list of its keys.
\<close>

fun referral_list :: "(string \<Rightarrow> pyval option) \<Rightarrow> pyval \<Rightarrow> pyval" where
  "referral_list loads (PList xs) = PList xs"
| "referral_list loads (PStr v) =
     (if v \<noteq> [] then (case loads v of Some j \<Rightarrow> j | None \<Rightarrow> PList []) else PList [])"
| "referral_list loads PNone = PList []"
| "referral_list loads (PTuple xs) = PList xs"
| "referral_list loads (PDict kvs) = PList (map (\<lambda>kv. PStr (fst kv)) kvs)"
| "referral_list loads v = PList []"

definition row_to_ref :: "(string \<Rightarrow> pyval option) \<Rightarrow> referral_row \<Rightarrow> ref" where
  "row_to_ref loads row =
     \<lparr>parent1 = col_parent1 row,
      parent2 = col_parent2 row,
      parent3 = col_parent3 row,
      referrals_l1 = py_or (referral_list loads (col_referrals_l1 row)) (PList []),
      referrals_l2 = py_or (referral_list loads (col_referrals_l2 row)) (PList []),
      referrals_l3 = py_or (referral_list loads (col_referrals_l3 row)) (PList []),
      earned_rub = (case col_earned_rub row of None \<Rightarrow> 0 | Some v \<Rightarrow> v),
      volume_rub = (case col_volume_rub row of None \<Rightarrow> 0 | Some v \<Rightarrow> v),
      username = Some (case col_username row of None \<Rightarrow> [] | Some n \<Rightarrow> n),
      first_name = Some (case col_first_name row of None \<Rightarrow> [] | Some n \<Rightarrow> n)\<rparr>"

subsection \<open>The operations\<close>

text \<open>The dictionary \<^verbatim>\<open>ref_get_or_create\<close> falls back to when the row it has just
  inserted is not there; it has no \<^verbatim>\<open>username\<close> and no \<^verbatim>\<open>first_name\<close>.\<close>

definition empty_ref :: ref where
  "empty_ref =
     \<lparr>parent1 = None, parent2 = None, parent3 = None,
      referrals_l1 = PList [], referrals_l2 = PList [], referrals_l3 = PList [],
      earned_rub = 0, volume_rub = 0, username = None, first_name = None\<rparr>"

definition ref_get_or_create ::
  "(string \<Rightarrow> pyval option) \<Rightarrow> nat \<Rightarrow> db \<Rightarrow> string \<Rightarrow> ref option \<times> db" where
  "ref_get_or_create loads now s user_id =
     (if \<not> db_enabled s then (None, s)
      else (case referrals s user_id of
              Some row \<Rightarrow> (Some (row_to_ref loads row), s)
            | None \<Rightarrow>
                (let t = insert_referral_default now (referrals s) user_id
                 in (Some (case t user_id of
                             Some row \<Rightarrow> row_to_ref loads row
                           | None \<Rightarrow> empty_ref),
                     s\<lparr>referrals := t\<rparr>))))"

text \<open>\<open>dumps\<close> is \<^verbatim>\<open>json.dumps\<close>, a parameter of the model.\<close>

definition ref_save ::
  "(pyval \<Rightarrow> string) \<Rightarrow> nat \<Rightarrow> db \<Rightarrow> string \<Rightarrow> ref \<Rightarrow> (error + unit) \<times> db" where
  "ref_save dumps now s user_id data =
     (if \<not> db_enabled s then (Inr (), s)
      else (case upsert_referral now (referrals s) user_id
                   \<lparr>col_parent1 = parent1 data,
                    col_parent2 = parent2 data,
                    col_parent3 = parent3 data,
                    col_referrals_l1 = PStr (dumps (py_or (referrals_l1 data) (PList []))),
                    col_referrals_l2 = PStr (dumps (py_or (referrals_l2 data) (PList []))),
                    col_referrals_l3 = PStr (dumps (py_or (referrals_l3 data) (PList []))),
                    col_earned_rub = Some (earned_rub data),
                    col_volume_rub = Some (volume_rub data),
                    col_username = Some (case username data of None \<Rightarrow> [] | Some n \<Rightarrow> n),
                    col_first_name = Some (case first_name data of None \<Rightarrow> [] | Some n \<Rightarrow> n),
                    col_updated_at = now\<rparr> of
              Inl e \<Rightarrow> (Inl e, s)
            | Inr t \<Rightarrow> (Inr (), s\<lparr>referrals := t\<rparr>)))"

definition ref_load_all :: "(string \<Rightarrow> pyval option) \<Rightarrow> db \<Rightarrow> (string \<rightharpoonup> ref)" where
  "ref_load_all loads s =
     (if \<not> db_enabled s then Map.empty
      else (\<lambda>user_id. map_option (row_to_ref loads) (referrals s user_id)))"

definition ref_add_earned ::
  "nat \<Rightarrow> db \<Rightarrow> string \<Rightarrow> real \<Rightarrow> real \<Rightarrow> (error + unit) \<times> db" where
  "ref_add_earned now s user_id volume_delta earned_delta =
     (if \<not> db_enabled s then (Inr (), s)
      else (case update_add_earned now (referrals s) user_id volume_delta earned_delta of
              Inl e \<Rightarrow> (Inl e, s)
            | Inr t \<Rightarrow> (Inr (), s\<lparr>referrals := t\<rparr>)))"

definition ref_set_earned ::
  "nat \<Rightarrow> db \<Rightarrow> string \<Rightarrow> real \<Rightarrow> (error + unit) \<times> db" where
  "ref_set_earned now s user_id earned =
     (if \<not> db_enabled s then (Inr (), s)
      else (case update_set_earned now (referrals s) user_id earned of
              Inl e \<Rightarrow> (Inl e, s)
            | Inr t \<Rightarrow> (Inr (), s\<lparr>referrals := t\<rparr>)))"

text \<open>The parent links stored for a user, \<open>None\<close> when the user has no referral row.\<close>

definition parents_of :: "db \<Rightarrow> string \<Rightarrow> (string option \<times> string option \<times> string option) option" where
  "parents_of s u =
     map_option (\<lambda>row. (col_parent1 row, col_parent2 row, col_parent3 row)) (referrals s u)"

text \<open>The values without \<^verbatim>\<open>__iter__\<close>: \<^verbatim>\<open>None\<close>, booleans and numbers.\<close>

fun scalar :: "pyval \<Rightarrow> bool" where
  "scalar PNone = True"
| "scalar (PBool b) = True"
| "scalar (PInt i) = True"
| "scalar (PFloat x) = True"
| "scalar v = False"

text \<open>Stand-ins for \<^verbatim>\<open>json.dumps\<close> and \<^verbatim>\<open>json.loads\<close> that agree with them on
  the empty list and its text \<^verbatim>\<open>[]\<close>, and on the text \<^verbatim>\<open>5\<close>.\<close>

definition dumps_empty_list :: "pyval \<Rightarrow> string" where
  "dumps_empty_list v = ''[]''"

definition loads_empty_list :: "string \<Rightarrow> pyval option" where
  "loads_empty_list t =
     (if t = ''[]'' then Some (PList []) else if t = ''5'' then Some (PInt 5) else None)"


section \<open>Concurrent debits\<close>

text \<open>
  The functions are coroutines: between two \<^verbatim>\<open>await\<close>s a call runs alone, and each
  \<^verbatim>\<open>await conn.fetchrow(...)\<close> has the store execute one statement, which the store
  applies to the row as a whole. A call of \<^verbatim>\<open>balance_deduct_rub\<close> or
  \<^verbatim>\<open>balance_deduct_usdt\<close> is therefore cut at its statements: the test of the flag and
  the amount with the rounding, the \<^verbatim>\<open>UPDATE\<close>, and (for rub, when the
  \<^verbatim>\<open>UPDATE\<close> matched no row) the \<^verbatim>\<open>SELECT\<close>. Concurrent calls are a list of
  calls, each with how far it has got, and a step of the system is a step of any one call
  that has not finished. That an \<^verbatim>\<open>UPDATE\<close> tests its \<^verbatim>\<open>WHERE\<close> condition and
  writes the row in one indivisible action is the store's doing (it locks the row and tests
  the condition on the row as it then is) and is taken as given.
\<close>

type_synonym call = "currency \<times> string \<times> num"

datatype progress =
    Called
  | Updating num
  | Selecting
  | Returned "balance option"
  | Raised error

fun call_step :: "nat \<Rightarrow> db \<Rightarrow> call \<Rightarrow> progress \<Rightarrow> progress \<times> db" where
  "call_step now s (c, user_id, amount) Called =
     (if \<not> db_enabled s \<or> py_le amount (Num 0) then (Returned None, s)
      else (Updating (py_round amount (digits c)), s))"
| "call_step now s (Rub, user_id, amount) (Updating a) =
     (case update_deduct_rub now (user_balances s) user_id a of
        Inl e \<Rightarrow> (Raised e, s)
      | Inr (t, None) \<Rightarrow> (Selecting, s\<lparr>user_balances := t\<rparr>)
      | Inr (t, Some row) \<Rightarrow> (Returned (Some (balance_of_row row)), s\<lparr>user_balances := t\<rparr>))"
| "call_step now s (Usdt, user_id, amount) (Updating a) =
     (case update_deduct_usdt now (user_balances s) user_id a of
        Inl e \<Rightarrow> (Raised e, s)
      | Inr (t, None) \<Rightarrow> (Returned None, s\<lparr>user_balances := t\<rparr>)
      | Inr (t, Some row) \<Rightarrow> (Returned (Some (balance_of_row row)), s\<lparr>user_balances := t\<rparr>))"
| "call_step now s (c, user_id, amount) Selecting =
     (let row = user_balances s user_id in (Returned None, s))"
| "call_step now s call (Returned r) = (Returned r, s)"
| "call_step now s call (Raised e) = (Raised e, s)"

text \<open>A call that runs with no other call in between.\<close>

definition call_alone :: "nat \<Rightarrow> db \<Rightarrow> call \<Rightarrow> progress \<times> db" where
  "call_alone now s call =
     (let (p1, s1) = call_step now s call Called;
          (p2, s2) = call_step now s1 call p1
      in call_step now s2 call p2)"

fun finished :: "progress \<Rightarrow> bool" where
  "finished (Returned r) = True"
| "finished (Raised e) = True"
| "finished p = False"

inductive conc_step ::
  "db \<times> (call \<times> progress) list \<Rightarrow> db \<times> (call \<times> progress) list \<Rightarrow> bool" where
  call_steps: "\<not> finished p \<Longrightarrow> call_step now s call p = (p', s')
     \<Longrightarrow> conc_step (s, xs @ (call, p) # ys) (s', xs @ (call, p') # ys)"

text \<open>A run of \<open>n\<close> steps.\<close>

inductive conc_run ::
  "nat \<Rightarrow> db \<times> (call \<times> progress) list \<Rightarrow> db \<times> (call \<times> progress) list \<Rightarrow> bool" where
  run_nil: "conc_run 0 conf conf"
| run_step: "conc_run n conf conf' \<Longrightarrow> conc_step conf' conf'' \<Longrightarrow> conc_run (Suc n) conf conf''"

definition start :: "call list \<Rightarrow> (call \<times> progress) list" where
  "start calls = map (\<lambda>call. (call, Called)) calls"

text \<open>The amount of a call rounded to \<open>n\<close> fractional digits, as a decimal (0 for
  \<open>NaN\<close>), and the total of the rounded amounts of the calls on a balance that have
  returned a balance.\<close>

fun debit_amount :: "num \<Rightarrow> nat \<Rightarrow> real" where
  "debit_amount (Num x) n = round_decimal x n"
| "debit_amount NaN n = 0"

fun succeeded :: "progress \<Rightarrow> bool" where
  "succeeded (Returned (Some b)) = True"
| "succeeded p = False"

fun debit_of :: "currency \<Rightarrow> string \<Rightarrow> call \<times> progress \<Rightarrow> real" where
  "debit_of c u ((c', u', amount), p) =
     (if c' = c \<and> u' = u \<and> succeeded p then debit_amount amount (digits c') else 0)"

definition debited :: "currency \<Rightarrow> string \<Rightarrow> (call \<times> progress) list \<Rightarrow> real" where
  "debited c u cs = sum_list (map (debit_of c u) cs)"

section \<open>Invariants\<close>

text \<open>The tables of a store whose balances fit their columns.\<close>

definition wf_table :: "(string \<rightharpoonup> balance_row) \<Rightarrow> bool" where
  "wf_table t = (\<forall>u row. t u = Some row \<longrightarrow> wf_balance_row row)"

text \<open>
  What holds of a call and the store at every moment of a run that started in \<open>s0\<close>: a
  call that missed did so on a balance that was already too small or absent, and a call that
  returned a balance returned the float of a balance between the present balance and the
  initial balance less its own amount.
\<close>

fun call_ok :: "db \<Rightarrow> db \<Rightarrow> call \<times> progress \<Rightarrow> bool" where
  "call_ok s0 s ((c, u, amount), Called) = True"
| "call_ok s0 s ((c, u, amount), Updating a) =
     (\<not> py_le amount (Num 0) \<and> a = py_round amount (digits c))"
| "call_ok s0 s ((c, u, amount), Selecting) =
     (c = Rub \<and> \<not> py_le amount (Num 0)
      \<and> (user_balances s u = None
         \<or> \<not> sql_ge (Num (stored c s u)) (py_round amount (digits c))))"
| "call_ok s0 s ((c, u, amount), Returned None) =
     (py_le amount (Num 0) \<or> user_balances s u = None
      \<or> \<not> sql_ge (Num (stored c s u)) (py_round amount (digits c)))"
| "call_ok s0 s ((c, u, amount), Returned (Some b)) =
     (\<not> py_le amount (Num 0)
      \<and> (\<exists>v. amount_in c b = Num (dbl v) \<and> stored c s u \<le> v
              \<and> v + debit_amount amount (digits c) \<le> stored c s0 u))"
| "call_ok s0 s ((c, u, amount), Raised e) = False"

definition conc_inv :: "db \<Rightarrow> db \<Rightarrow> (call \<times> progress) list \<Rightarrow> bool" where
  "conc_inv s0 s cs \<longleftrightarrow>
     db_enabled s \<and> wf_balances s
     \<and> (\<forall>u. user_balances s u = None \<longleftrightarrow> user_balances s0 u = None)
     \<and> (\<forall>x \<in> set cs. call_ok s0 s x)
     \<and> (\<forall>c u. stored c s u + debited c u cs = stored c s0 u)"

text \<open>How far a call has got after an \<^verbatim>\<open>UPDATE\<close> that matched no row, and the row
  an \<^verbatim>\<open>UPDATE\<close> that matched writes.\<close>

definition after_miss :: "currency \<Rightarrow> progress" where
  "after_miss c = (case c of Rub \<Rightarrow> Selecting | Usdt \<Rightarrow> Returned None)"

definition debit_row :: "currency \<Rightarrow> real \<Rightarrow> nat \<Rightarrow> balance_row \<Rightarrow> balance_row" where
  "debit_row c a now row =
     (case c of
        Rub \<Rightarrow> row\<lparr>balance_rub := Num (val (balance_rub row) - a), updated_at := now\<rparr>
      | Usdt \<Rightarrow> row\<lparr>balance_usdt := Num (val (balance_usdt row) - a), updated_at := now\<rparr>)"

text \<open>The statements a call may still have to run.\<close>

fun steps_left :: "progress \<Rightarrow> nat" where
  "steps_left Called = 3"
| "steps_left (Updating a) = 2"
| "steps_left Selecting = 1"
| "steps_left p = 0"

definition total_left :: "(call \<times> progress) list \<Rightarrow> nat" where
  "total_left cs = sum_list (map (\<lambda>x. steps_left (snd x)) cs)"

section \<open>Rounding and column types\<close>

lemma round_half_away_of_int: "round_half_away (of_int k) = k"
  unfolding round_half_away_def by (auto; linarith)

lemma round_half_even_of_int: "round_half_even (of_int k) = k"
  by (simp add: round_half_even_def)

lemma round_half_even_nonneg: "0 \<le> x \<Longrightarrow> 0 \<le> round_half_even x"
  unfolding round_half_even_def by (auto simp: Let_def)

lemma round_half_away_nonneg: "0 \<le> x \<Longrightarrow> 0 \<le> round_half_away x"
  unfolding round_half_away_def by auto

lemma round_half_even_near: "\<bar>of_int (round_half_even y) - y\<bar> \<le> 1 / 2"
  unfolding round_half_even_def Let_def by (auto; linarith)

lemma round_half_away_near: "\<bar>y - of_int k\<bar> < 1 / 2 \<Longrightarrow> round_half_away y = k"
proof -
  assume "\<bar>y - of_int k\<bar> < 1 / 2"
  then have h: "y - of_int k < 1 / 2" "of_int k - y < 1 / 2" by linarith+
  have a: "\<lfloor>y + 1 / 2\<rfloor> = k" using h by (intro floor_unique) linarith+
  have "real_of_int (- k) \<le> - y + 1 / 2" "- y + 1 / 2 < real_of_int (- k) + 1"
    using h by simp_all
  then have b: "\<lfloor>- y + 1 / 2\<rfloor> = - k" by (rule floor_unique)
  show ?thesis using a b by (simp add: round_half_away_def)
qed

lemma numeric_fixed:
  assumes "\<bar>k\<bar> < 10 ^ p"
  shows "numeric p s (of_int k / 10 ^ s) = Inr (of_int k / 10 ^ s)"
  using assms by (simp add: numeric_def round_half_away_of_int)

lemma numeric_near:
  assumes "\<bar>v * 10 ^ s - of_int k\<bar> < 1 / 2" and "\<bar>k\<bar> < 10 ^ p"
  shows "numeric p s v = Inr (of_int k / 10 ^ s)"
  using assms by (simp add: numeric_def round_half_away_near)

lemma numeric_zero: "numeric p s 0 = Inr 0"
  by (simp add: numeric_def round_half_away_def not_le)

lemma numeric_InrD:
  assumes "numeric p s x = Inr y"
  shows "\<exists>k. y = of_int k / 10 ^ s \<and> \<bar>k\<bar> < 10 ^ p \<and> (0 \<le> x \<longrightarrow> 0 \<le> k)"
  using assms
  by (auto simp: numeric_def Let_def round_half_away_nonneg split: if_splits)

lemma numeric_idem: "numeric p s x = Inr y \<Longrightarrow> numeric p s y = Inr y"
  by (auto dest!: numeric_InrD simp: numeric_fixed)

lemma round_decimal_grid:
  "\<exists>m. round_decimal x n = of_int m / 10 ^ n \<and> (0 \<le> x \<longrightarrow> 0 \<le> m)"
  unfolding round_decimal_def
  by (rule exI [of _ "round_half_even (x * 10 ^ n)"]) (simp add: round_half_even_nonneg)

lemma round_decimal_nonneg: "0 \<le> x \<Longrightarrow> 0 \<le> round_decimal x n"
  by (simp add: round_decimal_def round_half_even_nonneg)

lemma grid_pos: "(0::real) \<le> of_int k / 10 ^ s \<longleftrightarrow> 0 \<le> k"
  by (simp add: pos_le_divide_eq)

lemma numeric_diff:
  assumes b: "numeric p s b = Inr b" and a: "a = of_int m / 10 ^ s" and "0 \<le> a" "a \<le> b"
  shows "numeric p s (b - a) = Inr (b - a)"
proof -
  from b obtain k where k: "b = of_int k / 10 ^ s" "\<bar>k\<bar> < 10 ^ p"
    by (auto dest!: numeric_InrD)
  have m0: "0 \<le> m" using \<open>0 \<le> a\<close> a by (simp add: grid_pos)
  have "of_int m / (10::real) ^ s \<le> of_int k / 10 ^ s" using \<open>a \<le> b\<close> a k by simp
  then have mk: "m \<le> k" by (simp add: divide_le_cancel)
  have eq: "b - a = of_int (k - m) / 10 ^ s" by (simp add: a k diff_divide_distrib)
  have "\<bar>k - m\<bar> < 10 ^ p" using m0 mk k(2) by linarith
  then show ?thesis unfolding eq by (rule numeric_fixed)
qed

lemma numeric_sum:
  assumes b: "numeric p s b = Inr b" and a: "a = of_int m / 10 ^ s" and "0 \<le> a" "0 \<le> b"
    and fit: "(b + a) * 10 ^ s < 10 ^ p"
  shows "numeric p s (b + a) = Inr (b + a)"
proof -
  from b obtain k where k: "b = of_int k / 10 ^ s" "\<bar>k\<bar> < 10 ^ p"
    by (auto dest!: numeric_InrD)
  have m0: "0 \<le> m" using \<open>0 \<le> a\<close> a by (simp add: grid_pos)
  have k0: "0 \<le> k" using \<open>0 \<le> b\<close> k by (simp add: grid_pos)
  have eq: "b + a = of_int (k + m) / 10 ^ s" by (simp add: a k add_divide_distrib)
  have "(of_int (k + m) :: real) < 10 ^ p" using fit unfolding eq by simp
  then have "(of_int (k + m) :: real) < of_int (10 ^ p)" by simp
  then have "k + m < 10 ^ p" by (simp only: of_int_less_iff)
  then have "\<bar>k + m\<bar> < 10 ^ p" using m0 k0 by linarith
  then show ?thesis unfolding eq by (rule numeric_fixed)
qed

section \<open>Floats\<close>

text \<open>The float nearest to \<open>x\<close>, given the power of two \<open>x\<close> lies at.\<close>

lemma floor_log2_at:
  assumes "2 powi k \<le> \<bar>x\<bar>" "\<bar>x\<bar> < 2 powi (k + 1)"
  shows "\<lfloor>log 2 \<bar>x\<bar>\<rfloor> = k"
proof -
  have "(0::real) < 2 powi k" by (simp add: zero_less_power_int)
  with assms(1) have pos: "0 < \<bar>x\<bar>" by linarith
  have up: "(2::real) powr (real_of_int k + 1) = 2 powi (k + 1)"
    using powr_real_of_int' [of 2 "k + 1"] by simp
  have "2 powr (real_of_int k) \<le> \<bar>x\<bar>" using assms(1) by (simp add: powr_real_of_int')
  moreover have "\<bar>x\<bar> < 2 powr (real_of_int k + 1)" using assms(2) by (simp only: up)
  ultimately show ?thesis using floor_log_eq_powr_iff [OF pos, of 2 k] by simp
qed

lemma dbl_at:
  assumes "2 powi k \<le> \<bar>x\<bar>" "\<bar>x\<bar> < 2 powi (k + 1)"
  shows "dbl x = of_int (round_half_even (x / 2 powi (k - 52))) * 2 powi (k - 52)"
proof -
  have "(0::real) < 2 powi k" by (simp add: zero_less_power_int)
  with assms(1) have "0 < \<bar>x\<bar>" by linarith
  then have "x \<noteq> 0" by simp
  then show ?thesis by (simp add: dbl_def floor_log2_at [OF assms] Let_def)
qed

text \<open>A float is within \<open>2\<^sup>-\<^sup>5\<^sup>3\<close> of the number it is nearest to, relatively.\<close>

lemma dbl_error: "\<bar>dbl x - x\<bar> \<le> \<bar>x\<bar> / 2 ^ 53"
proof (cases "x = 0")
  case True
  then show ?thesis by (simp add: dbl_def)
next
  case False
  define e where "e = \<lfloor>log 2 \<bar>x\<bar>\<rfloor>"
  define q :: real where "q = 2 powi (e - 52)"
  have q0: "0 < q" by (simp add: q_def zero_less_power_int)
  have pos: "0 < \<bar>x\<bar>" using False by simp
  have "2 powr (real_of_int e) \<le> \<bar>x\<bar>"
    using floor_log_eq_powr_iff [OF pos, of 2 e] by (simp add: e_def)
  then have lo: "2 powi e \<le> \<bar>x\<bar>" by (simp add: powr_real_of_int')
  have qe: "q = 2 powi e / 2 ^ 52"
    by (simp add: q_def power_int_diff)
  have d: "dbl x = of_int (round_half_even (x / q)) * q"
    using False by (simp add: dbl_def e_def q_def Let_def)
  have "dbl x - x = (of_int (round_half_even (x / q)) - x / q) * q"
    using q0 by (simp add: d field_simps)
  then have "\<bar>dbl x - x\<bar> = \<bar>of_int (round_half_even (x / q)) - x / q\<bar> * q"
    using q0 by (simp add: abs_mult)
  also have "\<dots> \<le> 1 / 2 * q"
    using round_half_even_near [of "x / q"] q0 by (intro mult_right_mono) simp_all
  also have "\<dots> = 2 powi e / 2 ^ 53" by (simp add: qe)
  also have "\<dots> \<le> \<bar>x\<bar> / 2 ^ 53" using lo by (intro divide_right_mono) simp_all
  finally show ?thesis .
qed

lemma dbl_nonneg: "0 \<le> x \<Longrightarrow> 0 \<le> dbl x"
  by (simp add: dbl_def Let_def round_half_even_nonneg zero_le_power_int)

text \<open>An integer of at most 53 binary digits is a float.\<close>

lemma dbl_of_int:
  assumes "\<bar>n\<bar> < 2 ^ 53"
  shows "dbl (of_int n) = of_int n"
proof (cases "n = 0")
  case True
  then show ?thesis by (simp add: dbl_def)
next
  case False
  define e where "e = \<lfloor>log 2 \<bar>real_of_int n\<bar>\<rfloor>"
  have pos: "0 < \<bar>real_of_int n\<bar>" using False by simp
  have "2 powr (real_of_int e) \<le> \<bar>real_of_int n\<bar>"
    and "\<bar>real_of_int n\<bar> < 2 powr (real_of_int e + 1)"
    using floor_log_eq_powr_iff [OF pos, of 2 e] by (simp_all add: e_def)
  then have lo: "2 powi e \<le> \<bar>real_of_int n\<bar>"
    by (simp add: powr_real_of_int')
  have "\<bar>real_of_int n\<bar> = real_of_int \<bar>n\<bar>" by simp
  also have "\<dots> < real_of_int (2 ^ 53)" using assms by (simp only: of_int_less_iff)
  also have "\<dots> = 2 powr 53" by simp
  finally have "2 powr (real_of_int e) < 2 powr 53"
    using \<open>2 powr (real_of_int e) \<le> \<bar>real_of_int n\<bar>\<close> by simp
  then have "real_of_int e < 53" by (subst (asm) powr_less_cancel_iff) simp_all
  then have e53: "e < 53" by simp
  define j where "j = nat (52 - e)"
  have j: "52 - e = int j" using e53 by (simp add: j_def)
  have q: "(2::real) powi (e - 52) = 1 / 2 ^ j"
  proof -
    have "e - 52 = - int j" using j by simp
    then have "(2::real) powi (e - 52) = 2 powi (- int j)" by (simp only:)
    also have "\<dots> = 1 / 2 ^ j" by (simp add: power_int_minus inverse_eq_divide)
    finally show ?thesis .
  qed
  have "real_of_int n / 2 powi (e - 52) = of_int (n * 2 ^ j)" by (simp add: q)
  then have "dbl (of_int n) = of_int (n * 2 ^ j) * (1 / 2 ^ j)"
    using False by (simp add: dbl_def e_def [symmetric] Let_def round_half_even_of_int q
        del: of_int_mult of_int_power)
  then show ?thesis by simp
qed

lemma dbl_numeral: "numeral w < (2::int) ^ 53 \<Longrightarrow> dbl (numeral w) = numeral w"
  using dbl_of_int [of "numeral w"] by simp

lemma dbl_zero: "dbl 0 = 0"
  by (simp add: dbl_def)

lemma dbl_one: "dbl 1 = 1"
  using dbl_of_int [of 1] by simp

text \<open>Scaled to the unit of a column of \<open>s\<close> fractional digits.\<close>

lemma dbl_scaled_error:
  assumes "0 \<le> d"
  shows "\<bar>dbl d * 10 ^ s - d * 10 ^ s\<bar> \<le> d * 10 ^ s / 9007199254740992"
proof -
  have "\<bar>dbl d * 10 ^ s - d * 10 ^ s\<bar> = \<bar>dbl d - d\<bar> * 10 ^ s"
    by (simp add: abs_mult left_diff_distrib [symmetric])
  also have "\<dots> \<le> (\<bar>d\<bar> / 2 ^ 53) * 10 ^ s"
    using dbl_error [of d] by (intro mult_right_mono) simp_all
  also have "\<dots> = d * 10 ^ s / 9007199254740992" using assms by simp
  finally show ?thesis .
qed

text \<open>
  What a \<^verbatim>\<open>NUMERIC(12,s)\<close> column makes of the float of a decimal amount \<open>d\<close> of
  \<open>s\<close> fractional digits: the column rounds the float back to \<open>d\<close>.
\<close>

lemma numeric_of_float:
  assumes d: "d = of_int m / 10 ^ s" and d0: "0 \<le> d" and fit: "d * 10 ^ s < 10 ^ 12"
  shows "numeric 12 s (dbl d) = Inr d"
proof -
  have D: "d * 10 ^ s = of_int m" by (simp add: d)
  have m0: "0 \<le> m" using d0 d by (simp add: grid_pos)
  have "(of_int m :: real) < of_int (10 ^ 12)" using fit D by simp
  then have m12: "m < 10 ^ 12" by (simp only: of_int_less_iff)
  have "\<bar>dbl d * 10 ^ s - of_int m\<bar> \<le> of_int m / 9007199254740992"
    using dbl_scaled_error [OF d0, of s] by (simp only: D)
  moreover have "(of_int m :: real) < 1000000000000" using m12 by simp
  ultimately have "\<bar>dbl d * 10 ^ s - of_int m\<bar> < 1 / 2" by linarith
  then have "numeric 12 s (dbl d) = Inr (of_int m / 10 ^ s)"
    using m0 m12 by (intro numeric_near) simp_all
  then show ?thesis by (simp add: d)
qed

text \<open>
  The \<^verbatim>\<open>UPDATE\<close> of a debit, on a stored balance \<open>b\<close> and a decimal amount \<open>d\<close>
  sent as its float: when the balance is at least the float, it is at least \<open>d\<close>, and the
  column rounds the difference to \<open>b - d\<close>.
\<close>

lemma numeric_debit:
  assumes b: "numeric 12 s b = Inr b" and b0: "0 \<le> b"
    and d: "d = of_int m / 10 ^ s" and d0: "0 \<le> d" and le: "dbl d \<le> b"
  shows "d \<le> b" and "numeric 12 s (b - dbl d) = Inr (b - d)"
proof -
  from b obtain k where k: "b = of_int k / 10 ^ s" "\<bar>k\<bar> < 10 ^ 12"
    by (auto dest!: numeric_InrD)
  have B: "b * 10 ^ s = of_int k" by (simp add: k)
  have D: "d * 10 ^ s = of_int m" by (simp add: d)
  have k12: "(of_int k :: real) < 1000000000000" using k(2) by simp
  have err: "\<bar>dbl d * 10 ^ s - of_int m\<bar> \<le> of_int m / 9007199254740992"
    using dbl_scaled_error [OF d0, of s] by (simp only: D)
  have "dbl d * 10 ^ s \<le> b * 10 ^ s" using le by (intro mult_right_mono) simp_all
  then have le': "dbl d * 10 ^ s \<le> of_int k" by (simp only: B)
  have mk: "m \<le> k"
  proof (rule ccontr)
    assume "\<not> m \<le> k"
    then have "k + 1 \<le> m" by simp
    then have "(of_int k :: real) + 1 \<le> of_int m" by (metis of_int_1 of_int_add of_int_le_iff)
    with err le' k12 show False by linarith
  qed
  then have "(of_int m :: real) \<le> of_int k" by simp
  then have "d * 10 ^ s \<le> b * 10 ^ s" by (simp only: B D)
  then show db: "d \<le> b" by simp
  have m0: "0 \<le> m" using d0 d by (simp add: grid_pos)
  have eq: "(b - dbl d) * 10 ^ s - of_int (k - m) = of_int m - dbl d * 10 ^ s"
    by (simp add: left_diff_distrib B)
  have "(of_int m :: real) \<le> of_int k" using mk by simp
  with err k12 have "\<bar>(b - dbl d) * 10 ^ s - of_int (k - m)\<bar> < 1 / 2"
    unfolding eq by linarith
  moreover have "\<bar>k - m\<bar> < 10 ^ 12" using m0 mk k(2) by linarith
  ultimately have "numeric 12 s (b - dbl d) = Inr (of_int (k - m) / 10 ^ s)"
    by (rule numeric_near)
  then show "numeric 12 s (b - dbl d) = Inr (b - d)"
    by (simp add: k d diff_divide_distrib)
qed

section \<open>Stored balances fit their columns\<close>

text \<open>\<open>wf_balances\<close> holds of the store just created and is kept by every debit call
  and by every credit call whose amount is not \<open>NaN\<close>, so it holds of every store these
  calls can produce.\<close>

lemma fits_cases:
  assumes "fits p s v"
  obtains x where "v = Num x" "numeric p s x = Inr x" "0 \<le> x"
  using assms by (cases v) auto

lemma set_balance_rub_wf:
  "fits 12 6 (balance_usdt row) \<Longrightarrow> set_balance_rub now row (Num v) = Inr row'
     \<Longrightarrow> wf_balance_row row'"
  by (auto simp: set_balance_rub_def check_balance_row_def wf_balance_row_def
      split: sum.splits if_splits dest: numeric_idem)

lemma set_balance_usdt_wf:
  "fits 12 2 (balance_rub row) \<Longrightarrow> set_balance_usdt now row (Num v) = Inr row'
     \<Longrightarrow> wf_balance_row row'"
  by (auto simp: set_balance_usdt_def check_balance_row_def wf_balance_row_def
      split: sum.splits if_splits dest: numeric_idem)

lemma wf_table_upd: "wf_table t \<Longrightarrow> wf_balance_row row \<Longrightarrow> wf_table (t(u \<mapsto> row))"
  by (simp add: wf_table_def)

lemma wf_tableD: "wf_table t \<Longrightarrow> t u = Some row \<Longrightarrow> wf_balance_row row"
  by (simp add: wf_table_def)

lemma new_balance_row_fits:
  "fits 12 2 (balance_rub (new_balance_row now))"
  "fits 12 6 (balance_usdt (new_balance_row now))"
  by (simp_all add: new_balance_row_def numeric_zero)

lemma upsert_add_rub_wf:
  assumes "wf_table t" "upsert_add_rub now t u (Num a) = Inr t'"
  shows "wf_table t'"
proof -
  from assms(2) obtain excluded
    where ex: "set_balance_rub now (new_balance_row now) (Num a) = Inr excluded"
    by (auto simp: upsert_add_rub_def split: sum.splits)
  then have wfe: "wf_balance_row excluded"
    by (rule set_balance_rub_wf [OF new_balance_row_fits(2)])
  then obtain e where e: "balance_rub excluded = Num e"
    by (auto simp: wf_balance_row_def elim: fits_cases)
  show ?thesis
  proof (cases "t u")
    case None
    with assms ex wfe show ?thesis by (auto simp: upsert_add_rub_def intro: wf_table_upd)
  next
    case (Some row)
    with assms(1) have wfr: "wf_balance_row row" by (rule wf_tableD)
    then obtain b where b: "balance_rub row = Num b"
      by (auto simp: wf_balance_row_def elim: fits_cases)
    from wfr have "fits 12 6 (balance_usdt row)" by (simp add: wf_balance_row_def)
    with assms ex Some show ?thesis
      by (auto simp: upsert_add_rub_def e b split: sum.splits
          intro!: wf_table_upd dest: set_balance_rub_wf)
  qed
qed

lemma upsert_add_usdt_wf:
  assumes "wf_table t" "upsert_add_usdt now t u (Num a) = Inr t'"
  shows "wf_table t'"
proof -
  from assms(2) obtain excluded
    where ex: "set_balance_usdt now (new_balance_row now) (Num a) = Inr excluded"
    by (auto simp: upsert_add_usdt_def split: sum.splits)
  then have wfe: "wf_balance_row excluded"
    by (rule set_balance_usdt_wf [OF new_balance_row_fits(1)])
  then obtain e where e: "balance_usdt excluded = Num e"
    by (auto simp: wf_balance_row_def elim: fits_cases)
  show ?thesis
  proof (cases "t u")
    case None
    with assms ex wfe show ?thesis by (auto simp: upsert_add_usdt_def intro: wf_table_upd)
  next
    case (Some row)
    with assms(1) have wfr: "wf_balance_row row" by (rule wf_tableD)
    then obtain b where b: "balance_usdt row = Num b"
      by (auto simp: wf_balance_row_def elim: fits_cases)
    from wfr have "fits 12 2 (balance_rub row)" by (simp add: wf_balance_row_def)
    with assms ex Some show ?thesis
      by (auto simp: upsert_add_usdt_def e b split: sum.splits
          intro!: wf_table_upd dest: set_balance_usdt_wf)
  qed
qed

text \<open>A debit of \<open>NaN\<close> matches no row of such a store.\<close>

lemma update_deduct_rub_wf:
  assumes "wf_table t" "update_deduct_rub now t u a = Inr (t', r)"
  shows "wf_table t'"
proof (cases "t u")
  case None
  with assms show ?thesis by (simp add: update_deduct_rub_def)
next
  case (Some row)
  with assms(1) have wfr: "wf_balance_row row" by (rule wf_tableD)
  then obtain b where b: "balance_rub row = Num b"
    by (auto simp: wf_balance_row_def elim: fits_cases)
  from wfr have "fits 12 6 (balance_usdt row)" by (simp add: wf_balance_row_def)
  with assms Some show ?thesis
    by (cases a)
      (auto simp: update_deduct_rub_def b split: sum.splits if_splits
        intro!: wf_table_upd dest: set_balance_rub_wf)
qed

lemma update_deduct_usdt_wf:
  assumes "wf_table t" "update_deduct_usdt now t u a = Inr (t', r)"
  shows "wf_table t'"
proof (cases "t u")
  case None
  with assms show ?thesis by (simp add: update_deduct_usdt_def)
next
  case (Some row)
  with assms(1) have wfr: "wf_balance_row row" by (rule wf_tableD)
  then obtain b where b: "balance_usdt row = Num b"
    by (auto simp: wf_balance_row_def elim: fits_cases)
  from wfr have "fits 12 2 (balance_rub row)" by (simp add: wf_balance_row_def)
  with assms Some show ?thesis
    by (cases a)
      (auto simp: update_deduct_usdt_def b split: sum.splits if_splits
        intro!: wf_table_upd dest: set_balance_usdt_wf)
qed

lemma wf_balances_table: "wf_balances s = wf_table (user_balances s)"
  by (simp add: wf_balances_def wf_table_def)

lemma wf_balances_apply_op:
  "wf_balances s \<Longrightarrow> \<not> credits_nan x \<Longrightarrow> wf_balances (apply_op now s x)"
proof (cases x)
  case (AddRub u a)
  then show "wf_balances s \<Longrightarrow> \<not> credits_nan x \<Longrightarrow> ?thesis"
    by (cases a)
      (auto simp: wf_balances_table balance_add_rub_def split: sum.splits
        dest: upsert_add_rub_wf)
next
  case (AddUsdt u a)
  then show "wf_balances s \<Longrightarrow> \<not> credits_nan x \<Longrightarrow> ?thesis"
    by (cases a)
      (auto simp: wf_balances_table balance_add_usdt_def split: sum.splits
        dest: upsert_add_usdt_wf)
next
  case (DeductRub u a)
  then show "wf_balances s \<Longrightarrow> \<not> credits_nan x \<Longrightarrow> ?thesis"
    by (auto simp: wf_balances_table balance_deduct_rub_def
        split: sum.splits option.splits prod.splits dest: update_deduct_rub_wf)
next
  case (DeductUsdt u a)
  then show "wf_balances s \<Longrightarrow> \<not> credits_nan x \<Longrightarrow> ?thesis"
    by (auto simp: wf_balances_table balance_deduct_usdt_def
        split: sum.splits option.splits prod.splits dest: update_deduct_usdt_wf)
qed

lemma wf_balances_run_ops:
  "wf_balances s \<Longrightarrow> \<forall>x \<in> set ops. \<not> credits_nan (snd x) \<Longrightarrow> wf_balances (run_ops s ops)"
proof (induction ops arbitrary: s)
  case Nil
  then show ?case by simp
next
  case (Cons x xs)
  obtain now y where x: "x = (now, y)" by (cases x)
  from Cons.prems have "wf_balances (apply_op now s y)"
    by (intro wf_balances_apply_op) (simp_all add: x)
  then show ?case using Cons.prems unfolding x by (simp add: Cons.IH)
qed

lemma wf_balances_fresh: "wf_balances fresh_db"
  by (simp add: wf_balances_def fresh_db_def)

text \<open>In such a store every balance is a number that is not negative.\<close>

lemma fits_nonneg: "fits p s v \<Longrightarrow> py_le (Num 0) v \<and> 0 \<le> val v \<and> v = Num (val v)"
  by (cases v) simp_all

lemma wf_row_nums:
  assumes "wf_balance_row row"
  obtains b2 b6 where "balance_rub row = Num b2" "balance_usdt row = Num b6"
  using assms
  by (cases "balance_rub row"; cases "balance_usdt row") (auto simp: wf_balance_row_def)

lemma wf_balances_nonneg:
  assumes "wf_balances s" and "user_balances s u = Some row"
  shows "py_le (Num 0) (balance_rub row) \<and> py_le (Num 0) (balance_usdt row)"
proof -
  from assms have "wf_balance_row row" by (simp add: wf_balances_def)
  then show ?thesis
    using fits_nonneg [of 12 2 "balance_rub row"] fits_nonneg [of 12 6 "balance_usdt row"]
    by (simp add: wf_balance_row_def)
qed

lemma wf_single_balance:
  "wf_balance_row \<lparr>balance_rub = r, balance_usdt = d, updated_at = 0\<rparr>
     \<Longrightarrow> wf_balances (single_balance u r d)"
  by (simp add: wf_balances_def single_balance_def)

lemma stored_nonneg: "wf_balances s \<Longrightarrow> 0 \<le> stored c s u"
proof (cases "user_balances s u")
  case None
  then show ?thesis by (simp add: stored_def)
next
  case (Some row)
  assume "wf_balances s"
  with Some have "wf_balance_row row" by (simp add: wf_balances_def)
  then show ?thesis
    using Some fits_nonneg [of 12 2 "balance_rub row"] fits_nonneg [of 12 6 "balance_usdt row"]
    by (cases c) (simp_all add: stored_def amount_in_def wf_balance_row_def)
qed

section \<open>A credit of \<open>NaN\<close>\<close>

text \<open>
  \<^verbatim>\<open>float('nan') <= 0\<close> is false, so the test \<^verbatim>\<open>amount <= 0\<close> lets a
  \<open>NaN\<close> amount through; \<^verbatim>\<open>round\<close> keeps it, the column takes it, and the
  \<^verbatim>\<open>CHECK\<close> constraint accepts it, because the store orders \<open>NaN\<close> above every
  number.
\<close>

lemma check_nan_rub:
  "fits 12 6 (balance_usdt row)
     \<Longrightarrow> set_balance_rub now row NaN = Inr (row\<lparr>balance_rub := NaN, updated_at := now\<rparr>)"
  using fits_nonneg [of 12 6 "balance_usdt row"]
  by (cases "balance_usdt row") (simp_all add: set_balance_rub_def check_balance_row_def)

lemma check_nan_usdt:
  "fits 12 2 (balance_rub row)
     \<Longrightarrow> set_balance_usdt now row NaN = Inr (row\<lparr>balance_usdt := NaN, updated_at := now\<rparr>)"
  using fits_nonneg [of 12 2 "balance_rub row"]
  by (cases "balance_rub row") (simp_all add: set_balance_usdt_def check_balance_row_def)

lemma sql_add_nan: "sql_add a NaN = NaN"
  by (cases a) simp_all

lemma upsert_add_rub_nan:
  assumes "\<forall>row. t u = Some row \<longrightarrow> wf_balance_row row"
  shows "upsert_add_rub now t u NaN =
     Inr (t(u \<mapsto> (case t u of
             None \<Rightarrow> \<lparr>balance_rub = NaN, balance_usdt = Num 0, updated_at = now\<rparr>
           | Some row \<Rightarrow> row\<lparr>balance_rub := NaN, updated_at := now\<rparr>)))"
proof -
  have ex: "set_balance_rub now (new_balance_row now) NaN =
      Inr \<lparr>balance_rub = NaN, balance_usdt = Num 0, updated_at = now\<rparr>"
    using check_nan_rub [OF new_balance_row_fits(2), of now now]
    by (simp add: new_balance_row_def)
  show ?thesis
  proof (cases "t u")
    case None
    then show ?thesis by (simp add: upsert_add_rub_def ex)
  next
    case (Some row)
    with assms have "fits 12 6 (balance_usdt row)" by (simp add: wf_balance_row_def)
    then have "set_balance_rub now row NaN = Inr (row\<lparr>balance_rub := NaN, updated_at := now\<rparr>)"
      by (rule check_nan_rub)
    with Some show ?thesis by (simp add: upsert_add_rub_def ex sql_add_nan)
  qed
qed

lemma upsert_add_usdt_nan:
  assumes "\<forall>row. t u = Some row \<longrightarrow> wf_balance_row row"
  shows "upsert_add_usdt now t u NaN =
     Inr (t(u \<mapsto> (case t u of
             None \<Rightarrow> \<lparr>balance_rub = Num 0, balance_usdt = NaN, updated_at = now\<rparr>
           | Some row \<Rightarrow> row\<lparr>balance_usdt := NaN, updated_at := now\<rparr>)))"
proof -
  have ex: "set_balance_usdt now (new_balance_row now) NaN =
      Inr \<lparr>balance_rub = Num 0, balance_usdt = NaN, updated_at = now\<rparr>"
    using check_nan_usdt [OF new_balance_row_fits(1), of now now]
    by (simp add: new_balance_row_def)
  show ?thesis
  proof (cases "t u")
    case None
    then show ?thesis by (simp add: upsert_add_usdt_def ex)
  next
    case (Some row)
    with assms have "fits 12 2 (balance_rub row)" by (simp add: wf_balance_row_def)
    then have "set_balance_usdt now row NaN = Inr (row\<lparr>balance_usdt := NaN, updated_at := now\<rparr>)"
      by (rule check_nan_usdt)
    with Some show ?thesis by (simp add: upsert_add_usdt_def ex sql_add_nan)
  qed
qed

text \<open>Once a rub balance is \<open>NaN\<close>, every debit of a positive amount matches the row
  and hands back \<open>NaN\<close>.\<close>

lemma deduct_from_nan:
  assumes en: "db_enabled s" and row: "user_balances s u = Some row"
    and nan: "balance_rub row = NaN" and usdt: "fits 12 6 (balance_usdt row)" and pos: "0 < x"
  shows "fst (balance_deduct_rub now s u (Num x)) =
           Inr (Some \<lparr>balance_rub = NaN, balance_usdt = to_float (balance_usdt row)\<rparr>)"
proof -
  have "set_balance_rub now row NaN = Inr (row\<lparr>balance_rub := NaN, updated_at := now\<rparr>)"
    using usdt by (rule check_nan_rub)
  then show ?thesis
    using en row nan pos
    by (simp add: balance_deduct_rub_def update_deduct_rub_def balance_of_row_def)
qed

text \<open>
  C1. The claim that no stored balance is ever negative, that is that every balance stays
  \<open>\<ge> 0\<close>, fails at a credit of \<open>NaN\<close>. On an enabled store whose balances fit
  their columns, \<^verbatim>\<open>balance_add_rub(u, nan)\<close> and \<^verbatim>\<open>balance_add_usdt(u, nan)\<close>
  return \<open>True\<close> and store \<open>NaN\<close> as the balance of \<open>u\<close>, creating the row when it
  is absent. After the rub credit \<^verbatim>\<open>balance_get\<close> returns \<open>NaN\<close> for
  \<^verbatim>\<open>balance_rub\<close>, which is not \<open>\<ge> 0\<close>, and every debit of a positive amount
  succeeds and returns \<open>NaN\<close>.
\<close>

theorem nan_credit_stored:
  assumes en: "db_enabled s" and wf: "wf_balances s"
  shows "balance_add_rub now s u NaN =
           (Inr True,
            s\<lparr>user_balances := (user_balances s)(u \<mapsto>
                (case user_balances s u of
                   None \<Rightarrow> \<lparr>balance_rub = NaN, balance_usdt = Num 0, updated_at = now\<rparr>
                 | Some row \<Rightarrow> row\<lparr>balance_rub := NaN, updated_at := now\<rparr>))\<rparr>)
       \<and> balance_add_usdt now s u NaN =
           (Inr True,
            s\<lparr>user_balances := (user_balances s)(u \<mapsto>
                (case user_balances s u of
                   None \<Rightarrow> \<lparr>balance_rub = Num 0, balance_usdt = NaN, updated_at = now\<rparr>
                 | Some row \<Rightarrow> row\<lparr>balance_usdt := NaN, updated_at := now\<rparr>))\<rparr>)
       \<and> balance_rub (balance_get (snd (balance_add_rub now s u NaN)) u) = NaN
       \<and> \<not> py_le (Num 0) (balance_rub (balance_get (snd (balance_add_rub now s u NaN)) u))
       \<and> (\<forall>x now'. 0 < x \<longrightarrow>
            (\<exists>b. fst (balance_deduct_rub now' (snd (balance_add_rub now s u NaN)) u (Num x))
                    = Inr (Some b)
                 \<and> balance_rub b = NaN))"
proof -
  have wfu: "\<forall>row. user_balances s u = Some row \<longrightarrow> wf_balance_row row"
    using wf by (simp add: wf_balances_def)
  define r where "r = (case user_balances s u of
                   None \<Rightarrow> \<lparr>balance_rub = NaN, balance_usdt = Num 0, updated_at = now\<rparr>
                 | Some row \<Rightarrow> row\<lparr>balance_rub := NaN, updated_at := now\<rparr>)"
  define s' where "s' = s\<lparr>user_balances := (user_balances s)(u \<mapsto> r)\<rparr>"
  have add: "balance_add_rub now s u NaN = (Inr True, s')"
    using en wfu upsert_add_rub_nan [of "user_balances s" u now]
    by (simp add: balance_add_rub_def s'_def r_def)
  have add6: "balance_add_usdt now s u NaN =
           (Inr True,
            s\<lparr>user_balances := (user_balances s)(u \<mapsto>
                (case user_balances s u of
                   None \<Rightarrow> \<lparr>balance_rub = Num 0, balance_usdt = NaN, updated_at = now\<rparr>
                 | Some row \<Rightarrow> row\<lparr>balance_usdt := NaN, updated_at := now\<rparr>))\<rparr>)"
    using en wfu upsert_add_usdt_nan [of "user_balances s" u now]
    by (simp add: balance_add_usdt_def)
  have en': "db_enabled s'" using en by (simp add: s'_def)
  have row: "user_balances s' u = Some r" by (simp add: s'_def)
  have nan: "balance_rub r = NaN" by (simp add: r_def split: option.splits)
  have usdt: "fits 12 6 (balance_usdt r)"
    using wfu by (auto simp: r_def wf_balance_row_def numeric_zero split: option.splits)
  have get: "balance_rub (balance_get s' u) = NaN"
    using en' row nan by (simp add: balance_get_def balance_of_row_def)
  have ded: "\<forall>x now'. 0 < x \<longrightarrow>
            (\<exists>b. fst (balance_deduct_rub now' s' u (Num x)) = Inr (Some b) \<and> balance_rub b = NaN)"
    using deduct_from_nan [OF en' row nan usdt] by simp
  show ?thesis
    unfolding add add6 using get ded by (simp add: s'_def r_def)
qed

text \<open>On the store just created: the credit stores \<open>NaN\<close>, and a debit of a million
  then succeeds.\<close>

theorem nan_credit_stored_witness:
  "db_enabled fresh_db \<and> wf_balances fresh_db
   \<and> balance_add_rub 1 fresh_db ''u'' NaN =
       (Inr True, fresh_db\<lparr>user_balances :=
          [''u'' \<mapsto> \<lparr>balance_rub = NaN, balance_usdt = Num 0, updated_at = 1\<rparr>]\<rparr>)
   \<and> balance_get (snd (balance_add_rub 1 fresh_db ''u'' NaN)) ''u''
       = \<lparr>balance_rub = NaN, balance_usdt = Num 0\<rparr>
   \<and> fst (balance_deduct_rub 2 (snd (balance_add_rub 1 fresh_db ''u'' NaN)) ''u'' (Num 1000000))
       = Inr (Some \<lparr>balance_rub = NaN, balance_usdt = Num 0\<rparr>)"
proof -
  have en: "db_enabled fresh_db" by (simp add: fresh_db_def)
  have e: "user_balances fresh_db = Map.empty" by (simp add: fresh_db_def)
  note t = nan_credit_stored [OF en wf_balances_fresh, of 1 "''u''"]
  from t have add: "balance_add_rub 1 fresh_db ''u'' NaN =
       (Inr True, fresh_db\<lparr>user_balances :=
          [''u'' \<mapsto> \<lparr>balance_rub = NaN, balance_usdt = Num 0, updated_at = 1\<rparr>]\<rparr>)"
    by (simp add: e)
  have get: "balance_get (snd (balance_add_rub 1 fresh_db ''u'' NaN)) ''u''
       = \<lparr>balance_rub = NaN, balance_usdt = Num 0\<rparr>"
    unfolding add by (simp add: balance_get_def balance_of_row_def fresh_db_def dbl_zero)
  have "fst (balance_deduct_rub 2 (snd (balance_add_rub 1 fresh_db ''u'' NaN)) ''u'' (Num 1000000))
       = Inr (Some \<lparr>balance_rub = NaN, balance_usdt = Num 0\<rparr>)"
    unfolding add
    by (rule trans [OF deduct_from_nan [where row =
          "\<lparr>balance_rub = NaN, balance_usdt = Num 0, updated_at = 1\<rparr>"]])
      (simp_all add: fresh_db_def numeric_zero dbl_zero)
  with en wf_balances_fresh add get show ?thesis by simp
qed

section \<open>Debit\<close>

lemma round_decimal_amount:
  assumes "0 < x"
  obtains m where "round_decimal x n = of_int m / 10 ^ n" "0 \<le> round_decimal x n"
  using assms round_decimal_grid [of x n] round_decimal_nonneg [of x n] by auto

lemma set_balance_rub_ok:
  assumes "numeric 12 2 v = Inr w" "0 \<le> w" "fits 12 6 (balance_usdt row)"
  shows "set_balance_rub now row (Num v) = Inr (row\<lparr>balance_rub := Num w, updated_at := now\<rparr>)"
  using assms fits_nonneg [of 12 6 "balance_usdt row"]
  by (cases "balance_usdt row") (simp_all add: set_balance_rub_def check_balance_row_def)

lemma set_balance_usdt_ok:
  assumes "numeric 12 6 v = Inr w" "0 \<le> w" "fits 12 2 (balance_rub row)"
  shows "set_balance_usdt now row (Num v) = Inr (row\<lparr>balance_usdt := Num w, updated_at := now\<rparr>)"
  using assms fits_nonneg [of 12 2 "balance_rub row"]
  by (cases "balance_rub row") (simp_all add: set_balance_usdt_def check_balance_row_def)

text \<open>The \<^verbatim>\<open>UPDATE\<close> of a debit on a row that matches.\<close>

lemma deduct_rub_row:
  assumes wf: "wf_balance_row row" and pos: "0 < x"
    and le: "dbl (round_decimal x 2) \<le> val (balance_rub row)"
  shows "set_balance_rub now row (Num (val (balance_rub row) - dbl (round_decimal x 2))) =
           Inr (row\<lparr>balance_rub := Num (val (balance_rub row) - round_decimal x 2),
                    updated_at := now\<rparr>)"
    and "round_decimal x 2 \<le> val (balance_rub row)"
proof -
  obtain m where m: "round_decimal x 2 = of_int m / 10 ^ 2" "0 \<le> round_decimal x 2"
    using pos by (rule round_decimal_amount)
  from wf obtain b where b: "balance_rub row = Num b" "numeric 12 2 b = Inr b" "0 \<le> b"
    by (auto simp: wf_balance_row_def elim: fits_cases)
  note n = numeric_debit [OF b(2) b(3) m le [unfolded b(1) val.simps]]
  show "round_decimal x 2 \<le> val (balance_rub row)" using n(1) by (simp add: b)
  show "set_balance_rub now row (Num (val (balance_rub row) - dbl (round_decimal x 2))) =
           Inr (row\<lparr>balance_rub := Num (val (balance_rub row) - round_decimal x 2),
                    updated_at := now\<rparr>)"
    unfolding b(1) val.simps
    using n wf by (intro set_balance_rub_ok) (simp_all add: wf_balance_row_def)
qed

lemma deduct_usdt_row:
  assumes wf: "wf_balance_row row" and pos: "0 < x"
    and le: "dbl (round_decimal x 6) \<le> val (balance_usdt row)"
  shows "set_balance_usdt now row (Num (val (balance_usdt row) - dbl (round_decimal x 6))) =
           Inr (row\<lparr>balance_usdt := Num (val (balance_usdt row) - round_decimal x 6),
                    updated_at := now\<rparr>)"
    and "round_decimal x 6 \<le> val (balance_usdt row)"
proof -
  obtain m where m: "round_decimal x 6 = of_int m / 10 ^ 6" "0 \<le> round_decimal x 6"
    using pos by (rule round_decimal_amount)
  from wf obtain b where b: "balance_usdt row = Num b" "numeric 12 6 b = Inr b" "0 \<le> b"
    by (auto simp: wf_balance_row_def elim: fits_cases)
  note n = numeric_debit [OF b(2) b(3) m le [unfolded b(1) val.simps]]
  show "round_decimal x 6 \<le> val (balance_usdt row)" using n(1) by (simp add: b)
  show "set_balance_usdt now row (Num (val (balance_usdt row) - dbl (round_decimal x 6))) =
           Inr (row\<lparr>balance_usdt := Num (val (balance_usdt row) - round_decimal x 6),
                    updated_at := now\<rparr>)"
    unfolding b(1) val.simps
    using n wf by (intro set_balance_usdt_ok) (simp_all add: wf_balance_row_def)
qed

lemma update_deduct_rub_num:
  assumes wf: "wf_table t" and pos: "0 < x"
  shows "update_deduct_rub now t u (Num (dbl (round_decimal x 2))) =
     (case t u of
        None \<Rightarrow> Inr (t, None)
      | Some row \<Rightarrow>
          if dbl (round_decimal x 2) \<le> val (balance_rub row)
          then Inr (t(u \<mapsto> row\<lparr>balance_rub := Num (val (balance_rub row) - round_decimal x 2),
                                 updated_at := now\<rparr>),
                    Some (row\<lparr>balance_rub := Num (val (balance_rub row) - round_decimal x 2),
                              updated_at := now\<rparr>))
          else Inr (t, None))"
proof (cases "t u")
  case None
  then show ?thesis by (simp add: update_deduct_rub_def)
next
  case (Some row)
  with wf have wfr: "wf_balance_row row" by (rule wf_tableD)
  then obtain b where b: "balance_rub row = Num b"
    by (auto simp: wf_balance_row_def elim: fits_cases)
  show ?thesis
    using Some deduct_rub_row(1) [OF wfr pos, of now]
    by (simp add: update_deduct_rub_def b)
qed

lemma update_deduct_usdt_num:
  assumes wf: "wf_table t" and pos: "0 < x"
  shows "update_deduct_usdt now t u (Num (dbl (round_decimal x 6))) =
     (case t u of
        None \<Rightarrow> Inr (t, None)
      | Some row \<Rightarrow>
          if dbl (round_decimal x 6) \<le> val (balance_usdt row)
          then Inr (t(u \<mapsto> row\<lparr>balance_usdt := Num (val (balance_usdt row) - round_decimal x 6),
                                 updated_at := now\<rparr>),
                    Some (row\<lparr>balance_usdt := Num (val (balance_usdt row) - round_decimal x 6),
                              updated_at := now\<rparr>))
          else Inr (t, None))"
proof (cases "t u")
  case None
  then show ?thesis by (simp add: update_deduct_usdt_def)
next
  case (Some row)
  with wf have wfr: "wf_balance_row row" by (rule wf_tableD)
  then obtain b where b: "balance_usdt row = Num b"
    by (auto simp: wf_balance_row_def elim: fits_cases)
  show ?thesis
    using Some deduct_usdt_row(1) [OF wfr pos, of now]
    by (simp add: update_deduct_usdt_def b)
qed




lemma wf_single_row:
  "numeric 12 2 r = Inr r \<Longrightarrow> 0 \<le> r \<Longrightarrow> numeric 12 6 d = Inr d \<Longrightarrow> 0 \<le> d
     \<Longrightarrow> wf_balances (single_balance u (Num r) (Num d))"
  by (rule wf_single_balance) (simp add: wf_balance_row_def)

text \<open>The floats of some decimal literals.\<close>

lemma dbl_tenth: "dbl 0.1 = 3602879701896397 / 36028797018963968"
proof -
  have "dbl 0.1 = of_int (round_half_even (0.1 / 2 powi (- 4 - 52))) * 2 powi (- 4 - 52)"
    by (rule dbl_at) (simp_all add: power_int_minus)
  then show ?thesis by (simp add: round_half_even_def power_int_minus)
qed


lemma dbl_1_004: "dbl 1.004 = 2260807012939989 / 2251799813685248"
proof -
  have "dbl 1.004 =
      of_int (round_half_even (1.004 / 2 powi (0 - 52))) * 2 powi (0 - 52)"
    by (rule dbl_at) (simp_all add: power_int_minus)
  then show ?thesis by (simp add: round_half_even_def power_int_minus)
qed




section \<open>Credit\<close>

lemma credit_fits:
  assumes b: "numeric 12 s b = Inr b" "0 \<le> b" and pos: "0 < x"
    and fit: "(b + round_decimal x s) * 10 ^ s < 10 ^ 12"
  shows "numeric 12 s (dbl (round_decimal x s)) = Inr (round_decimal x s)"
    and "numeric 12 s (b + round_decimal x s) = Inr (b + round_decimal x s)"
proof -
  obtain m where m: "round_decimal x s = of_int m / 10 ^ s" "0 \<le> round_decimal x s"
    using pos by (rule round_decimal_amount)
  have "round_decimal x s * 10 ^ s \<le> (b + round_decimal x s) * 10 ^ s"
    using b(2) by (intro mult_right_mono) simp_all
  then have fit0: "round_decimal x s * 10 ^ s < 10 ^ 12" using fit by (rule le_less_trans)
  show "numeric 12 s (dbl (round_decimal x s)) = Inr (round_decimal x s)"
    using m fit0 by (rule numeric_of_float)
  show "numeric 12 s (b + round_decimal x s) = Inr (b + round_decimal x s)"
    using b m fit by (intro numeric_sum [where m = m]) simp_all
qed

lemma upsert_add_rub_ok:
  assumes wf: "\<forall>row. t u = Some row \<longrightarrow> wf_balance_row row" and pos: "0 < x"
    and fit: "(case t u of None \<Rightarrow> 0 | Some row \<Rightarrow> val (balance_rub row)) + round_decimal x 2
                < 10 ^ 10"
  shows "upsert_add_rub now t u (Num (dbl (round_decimal x 2))) =
     Inr (t(u \<mapsto> (case t u of
             None \<Rightarrow> \<lparr>balance_rub = Num (round_decimal x 2), balance_usdt = Num 0,
                      updated_at = now\<rparr>
           | Some row \<Rightarrow> row\<lparr>balance_rub := Num (val (balance_rub row) + round_decimal x 2),
                              updated_at := now\<rparr>)))"
proof -
  define b where "b = (case t u of None \<Rightarrow> 0 | Some row \<Rightarrow> val (balance_rub row))"
  have b: "numeric 12 2 b = Inr b" "0 \<le> b"
    using wf by (auto simp: b_def numeric_zero wf_balance_row_def split: option.splits
        elim!: fits_cases)
  have "(b + round_decimal x 2) * 10 ^ 2 < 10 ^ 10 * 10 ^ 2"
    using fit unfolding b_def [symmetric] by (intro mult_strict_right_mono) simp_all
  then have fit': "(b + round_decimal x 2) * 10 ^ 2 < 10 ^ 12" by simp
  note n = credit_fits [OF b pos fit']
  have a0: "0 \<le> round_decimal x 2" using pos by (simp add: round_decimal_nonneg)
  have ex: "set_balance_rub now (new_balance_row now) (Num (dbl (round_decimal x 2))) =
      Inr \<lparr>balance_rub = Num (round_decimal x 2), balance_usdt = Num 0, updated_at = now\<rparr>"
    using set_balance_rub_ok [OF n(1) a0, of "new_balance_row now" now]
    by (simp add: new_balance_row_def numeric_zero)
  show ?thesis
  proof (cases "t u")
    case None
    then show ?thesis by (simp add: upsert_add_rub_def ex)
  next
    case (Some row)
    with wf have wfr: "wf_balance_row row" by simp
    then obtain v where v: "balance_rub row = Num v"
      by (auto simp: wf_balance_row_def elim: fits_cases)
    have "set_balance_rub now row (Num (v + round_decimal x 2)) =
        Inr (row\<lparr>balance_rub := Num (v + round_decimal x 2), updated_at := now\<rparr>)"
      using n(2) a0 b(2) wfr Some v
      by (intro set_balance_rub_ok) (simp_all add: b_def wf_balance_row_def)
    with Some show ?thesis by (simp add: upsert_add_rub_def ex v)
  qed
qed

lemma upsert_add_usdt_ok:
  assumes wf: "\<forall>row. t u = Some row \<longrightarrow> wf_balance_row row" and pos: "0 < x"
    and fit: "(case t u of None \<Rightarrow> 0 | Some row \<Rightarrow> val (balance_usdt row)) + round_decimal x 6
                < 10 ^ 6"
  shows "upsert_add_usdt now t u (Num (dbl (round_decimal x 6))) =
     Inr (t(u \<mapsto> (case t u of
             None \<Rightarrow> \<lparr>balance_rub = Num 0, balance_usdt = Num (round_decimal x 6),
                      updated_at = now\<rparr>
           | Some row \<Rightarrow> row\<lparr>balance_usdt := Num (val (balance_usdt row) + round_decimal x 6),
                              updated_at := now\<rparr>)))"
proof -
  define b where "b = (case t u of None \<Rightarrow> 0 | Some row \<Rightarrow> val (balance_usdt row))"
  have b: "numeric 12 6 b = Inr b" "0 \<le> b"
    using wf by (auto simp: b_def numeric_zero wf_balance_row_def split: option.splits
        elim!: fits_cases)
  have "(b + round_decimal x 6) * 10 ^ 6 < 10 ^ 6 * 10 ^ 6"
    using fit unfolding b_def [symmetric] by (intro mult_strict_right_mono) simp_all
  then have fit': "(b + round_decimal x 6) * 10 ^ 6 < 10 ^ 12" by simp
  note n = credit_fits [OF b pos fit']
  have a0: "0 \<le> round_decimal x 6" using pos by (simp add: round_decimal_nonneg)
  have ex: "set_balance_usdt now (new_balance_row now) (Num (dbl (round_decimal x 6))) =
      Inr \<lparr>balance_rub = Num 0, balance_usdt = Num (round_decimal x 6), updated_at = now\<rparr>"
    using set_balance_usdt_ok [OF n(1) a0, of "new_balance_row now" now]
    by (simp add: new_balance_row_def numeric_zero)
  show ?thesis
  proof (cases "t u")
    case None
    then show ?thesis by (simp add: upsert_add_usdt_def ex)
  next
    case (Some row)
    with wf have wfr: "wf_balance_row row" by simp
    then obtain v where v: "balance_usdt row = Num v"
      by (auto simp: wf_balance_row_def elim: fits_cases)
    have "set_balance_usdt now row (Num (v + round_decimal x 6)) =
        Inr (row\<lparr>balance_usdt := Num (v + round_decimal x 6), updated_at := now\<rparr>)"
      using n(2) a0 b(2) wfr Some v
      by (intro set_balance_usdt_ok) (simp_all add: b_def wf_balance_row_def)
    with Some show ?thesis by (simp add: upsert_add_usdt_def ex v)
  qed
qed

text \<open>
  C4, as amended. With the store enabled (its balances fitting their columns) and
  \<open>amount > 0\<close>, a credit adds the amount
  rounded to the currency's precision to that currency's field, creates the row when it is
  absent with the other field at 0, stamps the row, and returns \<open>True\<close> (a flag, not
  the balance), as long as the new balance fits the column: below \<open>10\<^sup>1\<^sup>0\<close> for rub,
  below \<open>10\<^sup>6\<close> for usdt. The rounded amount is sent as its float, and the column
  brings the float back to the rounded amount.
\<close>

theorem balance_add_credits:
  assumes en: "db_enabled s" and pos: "0 < x" and wf: "wf_balances s"
  shows "(stored Rub s u + round_decimal x 2 < 10 ^ 10 \<longrightarrow>
          balance_add_rub now s u (Num x) =
            (Inr True,
             s\<lparr>user_balances := (user_balances s)(u \<mapsto>
                 (case user_balances s u of
                    None \<Rightarrow> \<lparr>balance_rub = Num (round_decimal x 2), balance_usdt = Num 0,
                             updated_at = now\<rparr>
                  | Some row \<Rightarrow>
                      row\<lparr>balance_rub := Num (val (balance_rub row) + round_decimal x 2),
                          updated_at := now\<rparr>))\<rparr>))
       \<and> (stored Usdt s u + round_decimal x 6 < 10 ^ 6 \<longrightarrow>
          balance_add_usdt now s u (Num x) =
            (Inr True,
             s\<lparr>user_balances := (user_balances s)(u \<mapsto>
                 (case user_balances s u of
                    None \<Rightarrow> \<lparr>balance_rub = Num 0, balance_usdt = Num (round_decimal x 6),
                             updated_at = now\<rparr>
                  | Some row \<Rightarrow>
                      row\<lparr>balance_usdt := Num (val (balance_usdt row) + round_decimal x 6),
                          updated_at := now\<rparr>))\<rparr>))"
proof -
  have wfu: "\<forall>row. user_balances s u = Some row \<longrightarrow> wf_balance_row row"
    using wf by (simp add: wf_balances_def)
  have g: "stored Rub s u =
             (case user_balances s u of None \<Rightarrow> 0 | Some row \<Rightarrow> val (balance_rub row))"
     "stored Usdt s u =
             (case user_balances s u of None \<Rightarrow> 0 | Some row \<Rightarrow> val (balance_usdt row))"
    by (simp_all add: stored_def amount_in_def split: option.splits)
  show ?thesis
    using en pos wfu upsert_add_rub_ok [of "user_balances s" u x now]
      upsert_add_usdt_ok [of "user_balances s" u x now]
    by (simp add: g balance_add_rub_def balance_add_usdt_def)
qed

text \<open>Crediting 50.00 rub to a user without a row creates the row with rub 50.00 and
  usdt 0; crediting the float \<^verbatim>\<open>0.1\<close> stores 0.10.\<close>

theorem balance_add_credits_witness:
  "db_enabled fresh_db \<and> (0::real) < 50 \<and> wf_balances fresh_db
   \<and> balance_add_rub 3 fresh_db ''u'' (Num 50) =
       (Inr True, fresh_db\<lparr>user_balances :=
          [''u'' \<mapsto> \<lparr>balance_rub = Num 50, balance_usdt = Num 0, updated_at = 3\<rparr>]\<rparr>)
   \<and> balance_get (snd (balance_add_rub 3 fresh_db ''u'' (Num 50))) ''u''
        = \<lparr>balance_rub = Num 50, balance_usdt = Num 0\<rparr>
   \<and> balance_add_rub 3 fresh_db ''u'' (py_float 0.1) =
       (Inr True, fresh_db\<lparr>user_balances :=
          [''u'' \<mapsto> \<lparr>balance_rub = Num 0.1, balance_usdt = Num 0, updated_at = 3\<rparr>]\<rparr>)"
proof -
  have en: "db_enabled fresh_db" by (simp add: fresh_db_def)
  have wf: "wf_balances fresh_db" by (simp add: wf_balances_def fresh_db_def)
  have r: "round_decimal 50 2 = 50" by (simp add: round_decimal_def round_half_even_def)
  have f: "dbl 50 = 50" by (simp add: dbl_numeral)
  have e: "user_balances fresh_db = Map.empty" by (simp add: fresh_db_def)
  have st: "stored Rub fresh_db ''u'' = 0" by (simp add: stored_def fresh_db_def)
  have t: "(0::real) < 3602879701896397 / 36028797018963968" by simp
  have rt: "round_decimal (3602879701896397 / 36028797018963968) 2 = 0.1"
    by (simp add: round_decimal_def round_half_even_def)
  have a: "balance_add_rub 3 fresh_db ''u'' (Num 50) =
       (Inr True, fresh_db\<lparr>user_balances :=
          [''u'' \<mapsto> \<lparr>balance_rub = Num 50, balance_usdt = Num 0, updated_at = 3\<rparr>]\<rparr>)"
    using balance_add_credits [OF en _ wf, of 50 "''u''" 3] by (simp add: r e st)
  have b: "balance_get (snd (balance_add_rub 3 fresh_db ''u'' (Num 50))) ''u''
        = \<lparr>balance_rub = Num 50, balance_usdt = Num 0\<rparr>"
    unfolding a by (simp add: balance_get_def balance_of_row_def fresh_db_def f dbl_zero)
  have c: "balance_add_rub 3 fresh_db ''u'' (py_float 0.1) =
       (Inr True, fresh_db\<lparr>user_balances :=
          [''u'' \<mapsto> \<lparr>balance_rub = Num 0.1, balance_usdt = Num 0, updated_at = 3\<rparr>]\<rparr>)"
    unfolding py_float_def dbl_tenth
    using balance_add_credits [OF en t wf, of "''u''" 3] by (simp add: rt e st)
  show ?thesis using en wf a b c by simp
qed

text \<open>C4 as stated fails: the value returned is \<open>True\<close>, where the claim has the
  post-update balance; and a credit that does not fit \<^verbatim>\<open>NUMERIC(12,2)\<close> raises and
  adds nothing.\<close>

theorem balance_add_returns_flag:
  "fst (balance_add_rub 3 fresh_db ''u'' (Num 50)) = Inr True
   \<and> balance_add_rub 3 fresh_db ''u'' (Num 10000000000) = (Inl NumericValueOutOfRange, fresh_db)"
proof -
  have r: "round_decimal 50 2 = 50" "round_decimal 10000000000 2 = 10000000000"
    by (simp_all add: round_decimal_def round_half_even_def)
  have f: "dbl 50 = 50" "dbl 10000000000 = 10000000000" by (simp_all add: dbl_numeral)
  show ?thesis
    by (simp add: balance_add_rub_def upsert_add_rub_def set_balance_rub_def
        check_balance_row_def new_balance_row_def numeric_def round_half_away_def
        r f fresh_db_def)
qed

section \<open>Non-positive amounts\<close>

text \<open>
  C7, as amended. For every amount \<open>\<le> 0\<close> (which \<open>NaN\<close> is not), the credit
  and debit calls return before
  any statement is sent to the store: \<^verbatim>\<open>balance_add_rub\<close> and
  \<^verbatim>\<open>balance_add_usdt\<close> return \<open>False\<close>, \<^verbatim>\<open>balance_deduct_rub\<close> and
  \<^verbatim>\<open>balance_deduct_usdt\<close> return \<open>None\<close>, and the store is unchanged.
  (\<^verbatim>\<open>ref_add_earned\<close> has no such test.)
\<close>

theorem nonpositive_amount_rejected:
  assumes "py_le amount (Num 0)"
  shows "balance_add_rub now s u amount = (Inr False, s)
       \<and> balance_add_usdt now s u amount = (Inr False, s)
       \<and> balance_deduct_rub now s u amount = (Inr None, s)
       \<and> balance_deduct_usdt now s u amount = (Inr None, s)"
  using assms
  by (simp add: balance_add_rub_def balance_add_usdt_def balance_deduct_rub_def
      balance_deduct_usdt_def)

text \<open>A credit and a debit of \<open>-5\<close>.\<close>

theorem nonpositive_amount_rejected_witness:
  "py_le (Num (- 5)) (Num 0)
   \<and> balance_add_rub 1 (single_balance ''u'' (Num 100) (Num 0)) ''u'' (Num (- 5))
        = (Inr False, single_balance ''u'' (Num 100) (Num 0))
   \<and> balance_deduct_rub 1 (single_balance ''u'' (Num 100) (Num 0)) ''u'' (Num (- 5))
        = (Inr None, single_balance ''u'' (Num 100) (Num 0))"
  using nonpositive_amount_rejected
    [of "Num (- 5)" 1 "single_balance ''u'' (Num 100) (Num 0)" "''u''"]
  by simp

text \<open>C7 as stated fails for the accrual: \<^verbatim>\<open>ref_add_earned\<close> with the deltas
  \<open>-3\<close> and \<open>-1\<close> is not rejected; it lowers the stored volume from 10 to 7 and
  the stored earnings from 2 to 1.\<close>

theorem ref_add_earned_takes_negative:
  "ref_add_earned 9
      (single_referral ''p''
         (default_referral_row 0\<lparr>col_volume_rub := Some 10, col_earned_rub := Some 2\<rparr>))
      ''p'' (- 3) (- 1)
   = (Inr (),
      single_referral ''p''
         (default_referral_row 0\<lparr>col_volume_rub := Some 7, col_earned_rub := Some 1,
            col_updated_at := 9\<rparr>))"
  by (simp add: ref_add_earned_def update_add_earned_def add_to_column_def numeric_null_def
      numeric_def round_half_away_def single_referral_def default_referral_row_def)

section \<open>The disabled store\<close>

text \<open>
  C8, as amended. When \<^verbatim>\<open>_db_enabled\<close> is false, \<^verbatim>\<open>balance_get\<close> returns the
  zero balance, \<^verbatim>\<open>ref_load_all\<close> returns the empty mapping and
  \<^verbatim>\<open>ref_get_or_create\<close> returns \<open>None\<close> (no record at all); no operation changes
  the store; \<^verbatim>\<open>balance_add_rub\<close> and \<^verbatim>\<open>balance_add_usdt\<close> return
  \<open>False\<close>, \<^verbatim>\<open>balance_deduct_rub\<close> and \<^verbatim>\<open>balance_deduct_usdt\<close> return
  \<open>None\<close>, and \<^verbatim>\<open>ref_save\<close>, \<^verbatim>\<open>ref_add_earned\<close> and
  \<^verbatim>\<open>ref_set_earned\<close> return nothing, as they do when they succeed.
\<close>

theorem disabled_store:
  assumes "\<not> db_enabled s"
  shows "balance_get s u = \<lparr>balance_rub = Num 0, balance_usdt = Num 0\<rparr>
       \<and> ref_get_or_create loads now s u = (None, s)
       \<and> ref_load_all loads s = Map.empty
       \<and> balance_add_rub now s u amount = (Inr False, s)
       \<and> balance_add_usdt now s u amount = (Inr False, s)
       \<and> balance_deduct_rub now s u amount = (Inr None, s)
       \<and> balance_deduct_usdt now s u amount = (Inr None, s)
       \<and> ref_save dumps now s u data = (Inr (), s)
       \<and> ref_add_earned now s u volume_delta earned_delta = (Inr (), s)
       \<and> ref_set_earned now s u earned = (Inr (), s)"
  using assms
  by (simp add: balance_get_def ref_get_or_create_def ref_load_all_def balance_add_rub_def
      balance_add_usdt_def balance_deduct_rub_def balance_deduct_usdt_def ref_save_def
      ref_add_earned_def ref_set_earned_def)

text \<open>The store just created, switched off.\<close>

theorem disabled_store_witness:
  "\<not> db_enabled (fresh_db\<lparr>db_enabled := False\<rparr>)
   \<and> balance_get (fresh_db\<lparr>db_enabled := False\<rparr>) ''u''
        = \<lparr>balance_rub = Num 0, balance_usdt = Num 0\<rparr>
   \<and> balance_add_rub 1 (fresh_db\<lparr>db_enabled := False\<rparr>) ''u'' (Num 50)
        = (Inr False, fresh_db\<lparr>db_enabled := False\<rparr>)
   \<and> ref_add_earned 1 (fresh_db\<lparr>db_enabled := False\<rparr>) ''u'' 10 1
        = (Inr (), fresh_db\<lparr>db_enabled := False\<rparr>)"
proof -
  have h: "\<not> db_enabled (fresh_db\<lparr>db_enabled := False\<rparr>)" by simp
  show ?thesis
    using disabled_store [OF h, of "''u''" "\<lambda>x. None" 1 "Num 50" "\<lambda>v. []" empty_ref 10 1 0]
    by simp
qed

text \<open>C8 as stated fails: with the store disabled \<^verbatim>\<open>ref_get_or_create\<close> returns
  \<open>None\<close>, not a zero-valued record, and \<^verbatim>\<open>ref_save\<close> returns what it returns
  on an enabled store, so its result signals no failure.\<close>

theorem disabled_ref_get_or_create_none:
  "fst (ref_get_or_create (\<lambda>x. None) 1 (fresh_db\<lparr>db_enabled := False\<rparr>) ''u'') = None
   \<and> fst (ref_get_or_create (\<lambda>x. None) 1 (fresh_db\<lparr>db_enabled := False\<rparr>) ''u'')
        \<noteq> Some empty_ref
   \<and> fst (ref_save (\<lambda>v. ''[]'') 1 (fresh_db\<lparr>db_enabled := False\<rparr>) ''u'' empty_ref)
        = fst (ref_save (\<lambda>v. ''[]'') 1 fresh_db ''u'' empty_ref)"
  by (simp add: ref_get_or_create_def ref_save_def upsert_referral_def numeric_null_def
      numeric_def round_half_away_def empty_ref_def fresh_db_def)


section \<open>Accrual\<close>

lemma numeric_exact:
  assumes v: "numeric p s v = Inr v" "0 \<le> v" and d: "round_decimal d s = d" "0 \<le> d"
    and fit: "(v + d) * 10 ^ s < 10 ^ p"
  shows "numeric p s (v + d) = Inr (v + d)"
proof -
  obtain m where m: "round_decimal d s = of_int m / 10 ^ s"
    using round_decimal_grid [of d s] by auto
  then have "d = of_int m / 10 ^ s" using d by simp
  then show ?thesis using v d fit by (intro numeric_sum [where m = m]) simp_all
qed

text \<open>
  C5, as amended. With the store enabled: for a user with no referral row
  \<^verbatim>\<open>ref_add_earned\<close> changes nothing and creates no row. For a user whose row holds a
  volume and earnings (not \<^verbatim>\<open>NULL\<close>), one \<^verbatim>\<open>UPDATE\<close> replaces
  \<^verbatim>\<open>volume_rub\<close> by \<open>volume_rub + volume_delta\<close> and \<^verbatim>\<open>earned_rub\<close> by
  \<open>earned_rub + earned_delta\<close>, each brought to \<^verbatim>\<open>NUMERIC(12,2)\<close> (rounded to two
  fractional digits), and stamps the row, whatever the sign of the deltas. The sums are
  stored exactly when the stored values and the deltas are non-negative, the deltas have at
  most two fractional digits and the sums stay below \<open>10\<^sup>1\<^sup>0\<close>.
\<close>

theorem ref_add_earned_accrual:
  assumes en: "db_enabled s"
  shows "(referrals s u = None \<longrightarrow> ref_add_earned now s u vd ed = (Inr (), s))
       \<and> (\<forall>row v e v' e'.
             referrals s u = Some row \<and> col_volume_rub row = Some v \<and> col_earned_rub row = Some e
             \<and> numeric 12 2 (v + vd) = Inr v' \<and> numeric 12 2 (e + ed) = Inr e'
             \<longrightarrow> ref_add_earned now s u vd ed =
                   (Inr (), s\<lparr>referrals := (referrals s)(u \<mapsto> row
                       \<lparr>col_volume_rub := Some v', col_earned_rub := Some e',
                        col_updated_at := now\<rparr>)\<rparr>))
       \<and> (\<forall>row v e.
             referrals s u = Some row \<and> col_volume_rub row = Some v \<and> col_earned_rub row = Some e
             \<and> numeric 12 2 v = Inr v \<and> numeric 12 2 e = Inr e \<and> 0 \<le> v \<and> 0 \<le> e
             \<and> round_decimal vd 2 = vd \<and> round_decimal ed 2 = ed \<and> 0 \<le> vd \<and> 0 \<le> ed
             \<and> v + vd < 10 ^ 10 \<and> e + ed < 10 ^ 10
             \<longrightarrow> ref_add_earned now s u vd ed =
                   (Inr (), s\<lparr>referrals := (referrals s)(u \<mapsto> row
                       \<lparr>col_volume_rub := Some (v + vd), col_earned_rub := Some (e + ed),
                        col_updated_at := now\<rparr>)\<rparr>))"
proof (intro conjI allI impI)
  assume "referrals s u = None"
  with en show "ref_add_earned now s u vd ed = (Inr (), s)"
    by (simp add: ref_add_earned_def update_add_earned_def)
next
  fix row v e v' e'
  assume "referrals s u = Some row \<and> col_volume_rub row = Some v \<and> col_earned_rub row = Some e
             \<and> numeric 12 2 (v + vd) = Inr v' \<and> numeric 12 2 (e + ed) = Inr e'"
  with en show "ref_add_earned now s u vd ed =
                   (Inr (), s\<lparr>referrals := (referrals s)(u \<mapsto> row
                       \<lparr>col_volume_rub := Some v', col_earned_rub := Some e',
                        col_updated_at := now\<rparr>)\<rparr>)"
    by (simp add: ref_add_earned_def update_add_earned_def add_to_column_def numeric_null_def)
next
  fix row v e
  assume h: "referrals s u = Some row \<and> col_volume_rub row = Some v \<and> col_earned_rub row = Some e
             \<and> numeric 12 2 v = Inr v \<and> numeric 12 2 e = Inr e \<and> 0 \<le> v \<and> 0 \<le> e
             \<and> round_decimal vd 2 = vd \<and> round_decimal ed 2 = ed \<and> 0 \<le> vd \<and> 0 \<le> ed
             \<and> v + vd < 10 ^ 10 \<and> e + ed < 10 ^ 10"
  then have "(v + vd) * 10 ^ 2 < 10 ^ 10 * 10 ^ 2" "(e + ed) * 10 ^ 2 < 10 ^ 10 * 10 ^ 2"
    by (simp_all only: mult_strict_right_mono zero_less_power zero_less_numeral)
  then have fit: "(v + vd) * 10 ^ 2 < 10 ^ 12" "(e + ed) * 10 ^ 2 < 10 ^ 12" by simp_all
  have "numeric 12 2 (v + vd) = Inr (v + vd)" "numeric 12 2 (e + ed) = Inr (e + ed)"
    using h fit by (auto intro!: numeric_exact)
  with en h show "ref_add_earned now s u vd ed =
                   (Inr (), s\<lparr>referrals := (referrals s)(u \<mapsto> row
                       \<lparr>col_volume_rub := Some (v + vd), col_earned_rub := Some (e + ed),
                        col_updated_at := now\<rparr>)\<rparr>)"
    by (simp add: ref_add_earned_def update_add_earned_def add_to_column_def numeric_null_def)
qed

text \<open>An accrual of volume 100 and earnings 10 to the enrolled user \<open>p\<close>, and the same
  accrual to \<open>q\<close>, who has no row.\<close>

theorem ref_add_earned_accrual_witness:
  "db_enabled (single_referral ''p'' (default_referral_row 0))
   \<and> ref_add_earned 9 (single_referral ''p'' (default_referral_row 0)) ''p'' 100 10
       = (Inr (), single_referral ''p''
            (default_referral_row 0\<lparr>col_volume_rub := Some 100, col_earned_rub := Some 10,
               col_updated_at := 9\<rparr>))
   \<and> ref_add_earned 9 (single_referral ''p'' (default_referral_row 0)) ''q'' 100 10
       = (Inr (), single_referral ''p'' (default_referral_row 0))"
proof -
  have en: "db_enabled (single_referral ''p'' (default_referral_row 0))"
    by (simp add: single_referral_def)
  have r: "round_decimal 100 2 = 100" "round_decimal 10 2 = 10"
    by (simp_all add: round_decimal_def round_half_even_def)
  have n: "numeric 12 2 0 = Inr 0"
    by (simp add: numeric_def round_half_away_def)
  show ?thesis
    using ref_add_earned_accrual [OF en, of "''p''" 9 100 10]
      ref_add_earned_accrual [OF en, of "''q''" 9 100 10] en
    by (simp add: r n single_referral_def default_referral_row_def)
qed

text \<open>C5 as stated fails: deltas of 0.004 leave a stored volume and stored earnings of
  1.00 at 1.00, only the time stamp changes; and a volume that is \<^verbatim>\<open>NULL\<close> stays
  \<^verbatim>\<open>NULL\<close> whatever is added to it.\<close>

theorem ref_add_earned_rounds_sum:
  "ref_add_earned 9
      (single_referral ''p''
         (default_referral_row 0\<lparr>col_volume_rub := Some 1, col_earned_rub := Some 1\<rparr>))
      ''p'' 0.004 0.004
   = (Inr (),
      single_referral ''p''
         (default_referral_row 0\<lparr>col_volume_rub := Some 1, col_earned_rub := Some 1,
            col_updated_at := 9\<rparr>))
   \<and> ref_add_earned 9
      (single_referral ''p'' (default_referral_row 0\<lparr>col_volume_rub := None\<rparr>))
      ''p'' 100 10
   = (Inr (),
      single_referral ''p''
         (default_referral_row 0\<lparr>col_volume_rub := None, col_earned_rub := Some 10,
            col_updated_at := 9\<rparr>))"
  by (simp add: ref_add_earned_def update_add_earned_def add_to_column_def numeric_null_def
      numeric_def round_half_away_def single_referral_def default_referral_row_def)

section \<open>Parent links\<close>

lemma parents_ref_get_or_create:
  "referrals s u \<noteq> None \<Longrightarrow> parents_of (snd (ref_get_or_create loads now s v)) u = parents_of s u"
  by (auto simp: ref_get_or_create_def parents_of_def insert_referral_default_def Let_def
      split: option.splits)

lemma parents_ref_add_earned:
  "parents_of (snd (ref_add_earned now s v vd ed)) u = parents_of s u"
  by (auto simp: ref_add_earned_def update_add_earned_def parents_of_def
      split: option.splits sum.splits)

lemma parents_ref_set_earned:
  "parents_of (snd (ref_set_earned now s v e)) u = parents_of s u"
  by (auto simp: ref_set_earned_def update_set_earned_def parents_of_def
      split: option.splits sum.splits)

lemma parents_apply_op: "parents_of (apply_op now s x) u = parents_of s u"
  by (cases x)
    (auto simp: balance_add_rub_def balance_add_usdt_def balance_deduct_rub_def
      balance_deduct_usdt_def parents_of_def split: sum.splits option.splits prod.splits)

lemma parents_ref_save_other:
  "v \<noteq> u \<Longrightarrow> parents_of (snd (ref_save dumps now s v data)) u = parents_of s u"
  by (auto simp: ref_save_def upsert_referral_def parents_of_def Let_def
      split: option.splits sum.splits)

lemma parents_ref_save_same:
  "db_enabled s \<Longrightarrow> fst (ref_save dumps now s u data) = Inr ()
     \<Longrightarrow> parents_of (snd (ref_save dumps now s u data)) u
           = Some (parent1 data, parent2 data, parent3 data)"
  by (auto simp: ref_save_def upsert_referral_def parents_of_def Let_def
      split: option.splits sum.splits)

text \<open>
  C6, as amended. For a user with a referral row, \<^verbatim>\<open>ref_get_or_create\<close>,
  \<^verbatim>\<open>ref_add_earned\<close>, \<^verbatim>\<open>ref_set_earned\<close>, the four balance operations, and
  \<^verbatim>\<open>ref_save\<close> for another user leave \<^verbatim>\<open>parent1\<close>, \<^verbatim>\<open>parent2\<close>,
  \<^verbatim>\<open>parent3\<close> as they are; a \<^verbatim>\<open>ref_save\<close> for the user that goes through
  replaces the three links by those of the data it is given.
\<close>

theorem parent_links_kept:
  assumes "referrals s u \<noteq> None"
  shows "parents_of (snd (ref_get_or_create loads now s v)) u = parents_of s u
       \<and> parents_of (snd (ref_add_earned now s v vd ed)) u = parents_of s u
       \<and> parents_of (snd (ref_set_earned now s v e)) u = parents_of s u
       \<and> parents_of (apply_op now s x) u = parents_of s u
       \<and> (v \<noteq> u \<longrightarrow> parents_of (snd (ref_save dumps now s v data)) u = parents_of s u)
       \<and> (db_enabled s \<and> fst (ref_save dumps now s u data) = Inr ()
            \<longrightarrow> parents_of (snd (ref_save dumps now s u data)) u
                  = Some (parent1 data, parent2 data, parent3 data))"
  using assms
  by (simp add: parents_ref_get_or_create parents_ref_add_earned parents_ref_set_earned
      parents_apply_op parents_ref_save_other parents_ref_save_same)

text \<open>A user \<open>u\<close> enrolled under \<open>a\<close>: an accrual, a save for another user, and a
  save for \<open>u\<close> that carries the same first parent.\<close>

theorem parent_links_kept_witness:
  "referrals (single_referral ''u'' (default_referral_row 0\<lparr>col_parent1 := Some ''a''\<rparr>)) ''u''
      \<noteq> None
   \<and> parents_of (snd (ref_add_earned 5
         (single_referral ''u'' (default_referral_row 0\<lparr>col_parent1 := Some ''a''\<rparr>))
         ''u'' 10 1)) ''u''
       = Some (Some ''a'', None, None)
   \<and> parents_of (snd (ref_save (\<lambda>v. ''[]'') 5
         (single_referral ''u'' (default_referral_row 0\<lparr>col_parent1 := Some ''a''\<rparr>))
         ''w'' (empty_ref\<lparr>parent1 := Some ''b''\<rparr>))) ''u''
       = Some (Some ''a'', None, None)
   \<and> parents_of (snd (ref_save (\<lambda>v. ''[]'') 5
         (single_referral ''u'' (default_referral_row 0\<lparr>col_parent1 := Some ''a''\<rparr>))
         ''u'' (empty_ref\<lparr>parent1 := Some ''a'', parent2 := Some ''c''\<rparr>))) ''u''
       = Some (Some ''a'', Some ''c'', None)"
proof -
  let ?s = "single_referral ''u'' (default_referral_row 0\<lparr>col_parent1 := Some ''a''\<rparr>)"
  have h: "referrals ?s ''u'' \<noteq> None" by (simp add: single_referral_def)
  have en: "db_enabled ?s" by (simp add: single_referral_def)
  have p: "parents_of ?s ''u'' = Some (Some ''a'', None, None)"
    by (simp add: parents_of_def single_referral_def default_referral_row_def)
  have ok: "fst (ref_save (\<lambda>v. ''[]'') 5 ?s ''u''
                  (empty_ref\<lparr>parent1 := Some ''a'', parent2 := Some ''c''\<rparr>)) = Inr ()"
    by (simp add: ref_save_def upsert_referral_def numeric_null_def numeric_def
        round_half_away_def empty_ref_def single_referral_def)
  show ?thesis
    using h en p ok
      parent_links_kept [OF h, of "\<lambda>x. None" 5 "''u''" 10 1 0 "AddRub ''u'' (Num 1)"
        "\<lambda>v. ''[]''" "empty_ref\<lparr>parent1 := Some ''a'', parent2 := Some ''c''\<rparr>"]
      parent_links_kept [OF h, of "\<lambda>x. None" 5 "''w''" 10 1 0 "AddRub ''u'' (Num 1)"
        "\<lambda>v. ''[]''" "empty_ref\<lparr>parent1 := Some ''b''\<rparr>"]
    by (simp add: empty_ref_def)
qed

text \<open>C6 as stated fails: a later \<^verbatim>\<open>ref_save\<close> for \<open>u\<close> with another parent
  overwrites the stored link \<open>a\<close> by \<open>b\<close>.\<close>

theorem ref_save_overwrites_parents:
  "parents_of (single_referral ''u'' (default_referral_row 0\<lparr>col_parent1 := Some ''a''\<rparr>)) ''u''
     = Some (Some ''a'', None, None)
   \<and> parents_of (snd (ref_save (\<lambda>v. ''[]'') 5
         (single_referral ''u'' (default_referral_row 0\<lparr>col_parent1 := Some ''a''\<rparr>))
         ''u'' (empty_ref\<lparr>parent1 := Some ''b''\<rparr>))) ''u''
       = Some (Some ''b'', None, None)"
  by (simp add: ref_save_def upsert_referral_def numeric_null_def numeric_def
      round_half_away_def empty_ref_def single_referral_def default_referral_row_def
      parents_of_def)

section \<open>Saving and reading back\<close>

lemma py_or_idem: "py_or (py_or v (PList [])) (PList []) = py_or v (PList [])"
  by (simp add: py_or_def)

lemma upsert_referral_row:
  assumes "numeric_null 12 2 (col_earned_rub vals) = Inr e"
    and "numeric_null 12 2 (col_volume_rub vals) = Inr v"
  shows "\<exists>t. upsert_referral now tbl u vals = Inr t
           \<and> map_option (\<lambda>row. row\<lparr>col_updated_at := 0\<rparr>) (t u)
               = Some (vals\<lparr>col_earned_rub := e, col_volume_rub := v, col_updated_at := 0\<rparr>)"
  using assms by (cases "tbl u") (simp_all add: upsert_referral_def)

lemma row_to_ref_updated_at: "row_to_ref loads (row\<lparr>col_updated_at := n\<rparr>) = row_to_ref loads row"
  by (simp add: row_to_ref_def)

text \<open>
  C9, as amended. With the store enabled and \<^verbatim>\<open>earned_rub\<close>, \<^verbatim>\<open>volume_rub\<close>
  of the data within the range of \<^verbatim>\<open>NUMERIC(12,2)\<close>, \<^verbatim>\<open>ref_save(user_id, data)\<close>
  followed by \<^verbatim>\<open>ref_get_or_create(user_id)\<close> returns a record with the same
  \<^verbatim>\<open>parent1\<close>, \<^verbatim>\<open>parent2\<close>, \<^verbatim>\<open>parent3\<close>; with the three referral lists
  of the data (an empty or missing one comes back as \<open>[]\<close>), provided
  \<^verbatim>\<open>json.loads\<close> gives back what \<^verbatim>\<open>json.dumps\<close> was given for them; and with
  \<^verbatim>\<open>earned_rub\<close> and \<^verbatim>\<open>volume_rub\<close> as the column stores them, that is rounded
  to two fractional digits.
\<close>

theorem ref_save_then_get:
  assumes en: "db_enabled s"
    and earned: "numeric 12 2 (earned_rub data) = Inr e"
    and volume: "numeric 12 2 (volume_rub data) = Inr v"
    and json: "\<forall>x \<in> {referrals_l1 data, referrals_l2 data, referrals_l3 data}.
                 dumps (py_or x (PList [])) \<noteq> []
                 \<and> loads (dumps (py_or x (PList []))) = Some (py_or x (PList []))"
  shows "fst (ref_save dumps now s u data) = Inr ()
       \<and> fst (ref_get_or_create loads now' (snd (ref_save dumps now s u data)) u) =
           Some \<lparr>parent1 = parent1 data, parent2 = parent2 data, parent3 = parent3 data,
                 referrals_l1 = py_or (referrals_l1 data) (PList []),
                 referrals_l2 = py_or (referrals_l2 data) (PList []),
                 referrals_l3 = py_or (referrals_l3 data) (PList []),
                 earned_rub = e, volume_rub = v,
                 username = Some (case username data of None \<Rightarrow> [] | Some n \<Rightarrow> n),
                 first_name = Some (case first_name data of None \<Rightarrow> [] | Some n \<Rightarrow> n)\<rparr>"
proof -
  let ?vals = "\<lparr>col_parent1 = parent1 data,
                    col_parent2 = parent2 data,
                    col_parent3 = parent3 data,
                    col_referrals_l1 = PStr (dumps (py_or (referrals_l1 data) (PList []))),
                    col_referrals_l2 = PStr (dumps (py_or (referrals_l2 data) (PList []))),
                    col_referrals_l3 = PStr (dumps (py_or (referrals_l3 data) (PList []))),
                    col_earned_rub = Some (earned_rub data),
                    col_volume_rub = Some (volume_rub data),
                    col_username = Some (case username data of None \<Rightarrow> [] | Some n \<Rightarrow> n),
                    col_first_name = Some (case first_name data of None \<Rightarrow> [] | Some n \<Rightarrow> n),
                    col_updated_at = now\<rparr>"
  have ne: "numeric_null 12 2 (col_earned_rub ?vals) = Inr (Some e)"
    and nv: "numeric_null 12 2 (col_volume_rub ?vals) = Inr (Some v)"
    using earned volume by (simp_all add: numeric_null_def)
  obtain t where t: "upsert_referral now (referrals s) u ?vals = Inr t"
    and row: "map_option (\<lambda>row. row\<lparr>col_updated_at := 0\<rparr>) (t u)
               = Some (?vals\<lparr>col_earned_rub := Some e, col_volume_rub := Some v,
                    col_updated_at := 0\<rparr>)"
    using upsert_referral_row [OF ne nv, of now "referrals s" u] by blast
  from row obtain r where r: "t u = Some r"
    and r0: "r\<lparr>col_updated_at := 0\<rparr> =
               ?vals\<lparr>col_earned_rub := Some e, col_volume_rub := Some v, col_updated_at := 0\<rparr>"
    by (cases "t u") auto
  have saved: "ref_save dumps now s u data = (Inr (), s\<lparr>referrals := t\<rparr>)"
    using en t by (simp add: ref_save_def)
  have "row_to_ref loads r = row_to_ref loads (r\<lparr>col_updated_at := 0\<rparr>)"
    by (simp add: row_to_ref_updated_at)
  also have "\<dots> = row_to_ref loads
       (?vals\<lparr>col_earned_rub := Some e, col_volume_rub := Some v, col_updated_at := 0\<rparr>)"
    by (simp only: r0)
  also have "\<dots> = \<lparr>parent1 = parent1 data, parent2 = parent2 data, parent3 = parent3 data,
                 referrals_l1 = py_or (referrals_l1 data) (PList []),
                 referrals_l2 = py_or (referrals_l2 data) (PList []),
                 referrals_l3 = py_or (referrals_l3 data) (PList []),
                 earned_rub = e, volume_rub = v,
                 username = Some (case username data of None \<Rightarrow> [] | Some n \<Rightarrow> n),
                 first_name = Some (case first_name data of None \<Rightarrow> [] | Some n \<Rightarrow> n)\<rparr>"
    using json by (simp add: row_to_ref_def py_or_idem)
  finally show ?thesis
    using en r by (simp add: saved ref_get_or_create_def)
qed

text \<open>Saving a record with one parent, empty lists and earnings of 12.50 for a new
  user, and reading it back.\<close>

theorem ref_save_then_get_witness:
  "db_enabled fresh_db
   \<and> numeric 12 2 (earned_rub (empty_ref\<lparr>parent1 := Some ''a'', earned_rub := 12.5\<rparr>)) = Inr 12.5
   \<and> numeric 12 2 (volume_rub (empty_ref\<lparr>parent1 := Some ''a'', earned_rub := 12.5\<rparr>)) = Inr 0
   \<and> map_option (\<lambda>r. (parent1 r, referrals_l1 r, earned_rub r, volume_rub r))
        (fst (ref_get_or_create loads_empty_list 2
               (snd (ref_save dumps_empty_list 1 fresh_db ''u''
                      (empty_ref\<lparr>parent1 := Some ''a'', earned_rub := 12.5\<rparr>))) ''u''))
       = Some (Some ''a'', PList [], 12.5, 0)"
proof -
  let ?d = "empty_ref\<lparr>parent1 := Some ''a'', earned_rub := 12.5\<rparr>"
  have en: "db_enabled fresh_db" by (simp add: fresh_db_def)
  have e: "numeric 12 2 (earned_rub ?d) = Inr 12.5"
    by (simp add: numeric_def round_half_away_def empty_ref_def)
  have v: "numeric 12 2 (volume_rub ?d) = Inr 0"
    by (simp add: numeric_def round_half_away_def empty_ref_def)
  have j: "\<forall>x \<in> {referrals_l1 ?d, referrals_l2 ?d, referrals_l3 ?d}.
                 dumps_empty_list (py_or x (PList [])) \<noteq> []
                 \<and> loads_empty_list (dumps_empty_list (py_or x (PList []))) = Some (py_or x (PList []))"
    by (simp add: empty_ref_def py_or_def loads_empty_list_def dumps_empty_list_def)
  show ?thesis
    using en e v ref_save_then_get [OF en e v j, of 1 "''u''" 2]
    by (simp add: empty_ref_def py_or_def)
qed

text \<open>C9 as stated fails: earnings of 1.234 are read back as 1.23, and a record with
  earnings of \<open>10\<^sup>1\<^sup>0\<close> is not saved at all.\<close>

theorem ref_save_rounds_earned:
  "map_option earned_rub
     (fst (ref_get_or_create loads_empty_list 2
            (snd (ref_save dumps_empty_list 1 fresh_db ''u'' (empty_ref\<lparr>earned_rub := 1.234\<rparr>)))
            ''u''))
     = Some 1.23
   \<and> earned_rub (empty_ref\<lparr>earned_rub := 1.234\<rparr>) \<noteq> 1.23
   \<and> ref_save dumps_empty_list 1 fresh_db ''u'' (empty_ref\<lparr>earned_rub := 10000000000\<rparr>)
       = (Inl NumericValueOutOfRange, fresh_db)"
  by (simp add: ref_get_or_create_def ref_save_def upsert_referral_def numeric_null_def
      numeric_def round_half_away_def empty_ref_def fresh_db_def row_to_ref_def
      loads_empty_list_def dumps_empty_list_def py_or_def)


section \<open>Referral lists of a row\<close>

text \<open>What \<^verbatim>\<open>_row_to_ref\<close> makes of a stored value, case by case. A string is decoded,
  and whatever it decodes to is kept unless it is falsy.\<close>

lemma referral_list_cases:
  "(scalar v \<or> v = PStr [] \<or> (\<exists>t. v = PStr t \<and> loads t = None)
      \<longrightarrow> py_or (referral_list loads v) (PList []) = PList [])
   \<and> (is_list v \<longrightarrow> py_or (referral_list loads v) (PList []) = v)
   \<and> (\<forall>xs. v = PTuple xs \<longrightarrow> py_or (referral_list loads v) (PList []) = PList xs)
   \<and> (\<forall>kvs. v = PDict kvs
         \<longrightarrow> py_or (referral_list loads v) (PList []) = PList (map (\<lambda>kv. PStr (fst kv)) kvs))
   \<and> (\<forall>t j. v = PStr t \<and> t \<noteq> [] \<and> loads t = Some j
         \<longrightarrow> py_or (referral_list loads v) (PList []) = py_or j (PList []))"
  by (cases v) (auto simp: py_or_def)

text \<open>Both reading operations hand a stored row to \<^verbatim>\<open>_row_to_ref\<close>.\<close>

lemma reads_row_to_ref:
  assumes "db_enabled s" and "referrals s u = Some row"
  shows "ref_get_or_create loads now s u = (Some (row_to_ref loads row), s)"
    and "ref_load_all loads s u = Some (row_to_ref loads row)"
  using assms by (simp_all add: ref_get_or_create_def ref_load_all_def)

lemma row_to_ref_fields:
  "referrals_l1 (row_to_ref loads row)
     = py_or (referral_list loads (col_referrals_l1 row)) (PList [])"
  "referrals_l2 (row_to_ref loads row)
     = py_or (referral_list loads (col_referrals_l2 row)) (PList [])"
  "referrals_l3 (row_to_ref loads row)
     = py_or (referral_list loads (col_referrals_l3 row)) (PList [])"
  by (simp_all add: row_to_ref_def)

lemma ball_three: "P a \<Longrightarrow> P b \<Longrightarrow> P c \<Longrightarrow> \<forall>x \<in> set [a, b, c]. P x"
  by simp

text \<open>
  For every stored referral row \<^verbatim>\<open>_row_to_ref\<close> raises nothing, and each of
  \<^verbatim>\<open>referrals_l1\<close>, \<^verbatim>\<open>referrals_l2\<close>, \<^verbatim>\<open>referrals_l3\<close> of the record it
  returns is: the empty list when the stored value is null, a boolean, a number, the empty
  string or a string that \<^verbatim>\<open>json.loads\<close> rejects; the stored list when it is a list;
  the list of the elements of a stored tuple and of the keys of a stored dictionary; and,
  when the stored value is a non-empty string that \<^verbatim>\<open>json.loads\<close> accepts, the
  decoded value, or the empty list when the decoded value is falsy.
\<close>

lemma row_to_ref_lists:
  "\<forall>(col, field) \<in> set [(col_referrals_l1, referrals_l1), (col_referrals_l2, referrals_l2),
                         (col_referrals_l3, referrals_l3)].
     (scalar (col row) \<or> col row = PStr [] \<or> (\<exists>t. col row = PStr t \<and> loads t = None)
        \<longrightarrow> field (row_to_ref loads row) = PList [])
   \<and> (is_list (col row) \<longrightarrow> field (row_to_ref loads row) = col row)
   \<and> (\<forall>xs. col row = PTuple xs \<longrightarrow> field (row_to_ref loads row) = PList xs)
   \<and> (\<forall>kvs. col row = PDict kvs
         \<longrightarrow> field (row_to_ref loads row) = PList (map (\<lambda>kv. PStr (fst kv)) kvs))
   \<and> (\<forall>t j. col row = PStr t \<and> t \<noteq> [] \<and> loads t = Some j
         \<longrightarrow> field (row_to_ref loads row) = py_or j (PList []))"
proof -
  note c = referral_list_cases [of "col_referrals_l1 row" loads]
    referral_list_cases [of "col_referrals_l2 row" loads]
    referral_list_cases [of "col_referrals_l3 row" loads]
  show ?thesis
    apply (rule ball_three)
      apply (simp_all only: prod.case row_to_ref_fields)
      apply (rule c(1))
     apply (rule c(2))
    apply (rule c(3))
    done
qed

text \<open>
  C10. The claim that the three referral lists of a returned record are always lists fails
  on a stored string whose JSON is not a list (the driver hands a \<^verbatim>\<open>JSONB\<close> value
  back as its JSON text, so this is how a stored JSON number, string or object arrives).
  For every stored row and each of the three columns: when the column holds a non-empty
  string that \<^verbatim>\<open>json.loads\<close> decodes to a value that is not falsy, the field of the
  record that \<^verbatim>\<open>ref_get_or_create\<close> and \<^verbatim>\<open>ref_load_all\<close> return is the decoded
  value itself, whether it is a list or not.
\<close>

theorem row_to_ref_returns_decoded:
  assumes en: "db_enabled s" and row: "referrals s u = Some row"
  shows "\<forall>(col, field) \<in> set [(col_referrals_l1, referrals_l1),
                               (col_referrals_l2, referrals_l2),
                               (col_referrals_l3, referrals_l3)].
           \<forall>t j. col row = PStr t \<and> t \<noteq> [] \<and> loads t = Some j \<and> truthy j
             \<longrightarrow> map_option field (fst (ref_get_or_create loads now s u)) = Some j
                 \<and> map_option field (ref_load_all loads s u) = Some j"
proof -
  note r = reads_row_to_ref [OF en row, of loads]
  show ?thesis
    apply (rule ball_three)
      apply (simp_all only: prod.case r fst_conv option.map row_to_ref_fields)
      apply (auto simp: py_or_def)
    done
qed

text \<open>A row whose \<^verbatim>\<open>referrals_l1\<close> holds the JSON number 5: the record has the
  number 5, not a list, as its \<^verbatim>\<open>referrals_l1\<close>.\<close>

theorem row_to_ref_returns_decoded_witness:
  "db_enabled (single_referral ''u'' (default_referral_row 0\<lparr>col_referrals_l1 := PStr ''5''\<rparr>))
   \<and> loads_empty_list ''5'' = Some (PInt 5) \<and> truthy (PInt 5)
   \<and> map_option referrals_l1
        (fst (ref_get_or_create loads_empty_list 1
               (single_referral ''u'' (default_referral_row 0\<lparr>col_referrals_l1 := PStr ''5''\<rparr>))
               ''u''))
       = Some (PInt 5)
   \<and> map_option referrals_l1
        (ref_load_all loads_empty_list
           (single_referral ''u'' (default_referral_row 0\<lparr>col_referrals_l1 := PStr ''5''\<rparr>))
           ''u'')
       = Some (PInt 5)
   \<and> \<not> is_list (PInt 5)"
proof -
  let ?row = "default_referral_row 0\<lparr>col_referrals_l1 := PStr ''5''\<rparr>"
  have en: "db_enabled (single_referral ''u'' ?row)" by (simp add: single_referral_def)
  have row: "referrals (single_referral ''u'' ?row) ''u'' = Some ?row"
    by (simp add: single_referral_def)
  have l: "loads_empty_list ''5'' = Some (PInt 5)" by (simp add: loads_empty_list_def)
  show ?thesis
    using en l row_to_ref_returns_decoded [OF en row, of loads_empty_list 1]
    by simp
qed

section \<open>Debits that run concurrently\<close>

text \<open>Cut at its statements and run with nothing in between, a call is the function it
  was cut from.\<close>

lemma call_alone_deduct:
  "call_alone now s (Rub, u, amount) =
     (case balance_deduct_rub now s u amount of
        (Inl e, s') \<Rightarrow> (Raised e, s')
      | (Inr r, s') \<Rightarrow> (Returned r, s'))"
  "call_alone now s (Usdt, u, amount) =
     (case balance_deduct_usdt now s u amount of
        (Inl e, s') \<Rightarrow> (Raised e, s')
      | (Inr r, s') \<Rightarrow> (Returned r, s'))"
  by (auto simp: call_alone_def balance_deduct_rub_def balance_deduct_usdt_def digits_def
      Let_def split: sum.splits option.splits prod.splits)

lemma debited_simps:
  "debited c u [] = 0"
  "debited c u (x # xs) = debit_of c u x + debited c u xs"
  "debited c u (xs @ ys) = debited c u xs + debited c u ys"
  by (simp_all add: debited_def)

lemma debit_amount_nonneg: "\<not> py_le a (Num 0) \<Longrightarrow> 0 \<le> debit_amount a n"
  by (cases a) (simp_all add: round_decimal_nonneg)

lemma debited_nonneg:
  "\<forall>x \<in> set cs. call_ok s0 s x \<Longrightarrow> 0 \<le> debited c u cs"
proof (induction cs)
  case Nil
  then show ?case by (simp add: debited_simps)
next
  case (Cons x cs)
  obtain c' u' amount p where x: "x = ((c', u', amount), p)" by (cases x) auto
  have "0 \<le> debit_of c u x"
  proof (cases "succeeded p")
    case True
    then obtain b where "p = Returned (Some b)" by (cases p rule: succeeded.cases) auto
    with Cons.prems x have "\<not> py_le amount (Num 0)" by simp
    then show ?thesis by (simp add: x debit_amount_nonneg)
  next
    case False
    then show ?thesis by (simp add: x)
  qed
  with Cons show ?case by (simp add: debited_simps)
qed

lemma sql_ge_mono: "sql_ge (Num y) a \<Longrightarrow> y \<le> x \<Longrightarrow> sql_ge (Num x) a"
  by (cases a) simp_all

lemma call_ok_mono:
  assumes "call_ok s0 s x"
    and "\<forall>c u. stored c s' u \<le> stored c s u"
    and "\<forall>u. user_balances s' u = None \<longleftrightarrow> user_balances s u = None"
  shows "call_ok s0 s' x"
proof -
  obtain c u amount p where x: "x = ((c, u, amount), p)" by (cases x) auto
  have le: "stored c s' u \<le> stored c s u" using assms(2) by simp
  have none: "user_balances s' u = None \<longleftrightarrow> user_balances s u = None"
    using assms(3) by simp
  have ge: "sql_ge (Num (stored c s' u)) a \<Longrightarrow> sql_ge (Num (stored c s u)) a" for a
    using le by (rule sql_ge_mono [rotated])
  show ?thesis
  proof (cases p)
    case (Returned r)
    show ?thesis
    proof (cases r)
      case None
      with assms(1) none ge x Returned show ?thesis by auto
    next
      case (Some b)
      with assms(1) x Returned obtain v where
        "amount_in c b = Num (dbl v)" "stored c s u \<le> v"
        "v + debit_amount amount (digits c) \<le> stored c s0 u" by auto
      moreover from this le have "stored c s' u \<le> v" by simp
      ultimately show ?thesis using assms(1) x Returned Some by auto
    qed
  qed (use assms(1) none ge x in auto)
qed

lemma wf_after_debit:
  assumes wf: "wf_balance_row row" and d: "d = of_int m / 10 ^ digits c" "0 \<le> d"
    and le: "d \<le> val (amount_in c row)"
  shows "wf_balance_row (debit_row c d now row)"
proof (cases c)
  case Rub
  from wf obtain b where b: "balance_rub row = Num b" "numeric 12 2 b = Inr b" "0 \<le> b"
    by (auto simp: wf_balance_row_def elim: fits_cases)
  have "numeric 12 2 (b - d) = Inr (b - d)"
    using b d le by (intro numeric_diff [where m = m]) (simp_all add: Rub digits_def amount_in_def)
  then show ?thesis
    using wf le b by (simp add: Rub debit_row_def wf_balance_row_def amount_in_def)
next
  case Usdt
  from wf obtain b where b: "balance_usdt row = Num b" "numeric 12 6 b = Inr b" "0 \<le> b"
    by (auto simp: wf_balance_row_def elim: fits_cases)
  have "numeric 12 6 (b - d) = Inr (b - d)"
    using b d le by (intro numeric_diff [where m = m]) (simp_all add: Usdt digits_def amount_in_def)
  then show ?thesis
    using wf le b by (simp add: Usdt debit_row_def wf_balance_row_def amount_in_def)
qed

text \<open>The \<^verbatim>\<open>UPDATE\<close> step of a call, on a store whose balances fit their columns.\<close>

lemma update_step:
  assumes wf: "wf_balances s" and ok: "\<not> py_le amount (Num 0)"
  shows "call_step now s (c, u, amount) (Updating (py_round amount (digits c))) =
     (case user_balances s u of
        None \<Rightarrow> (after_miss c, s)
      | Some row \<Rightarrow>
          if sql_ge (amount_in c row) (py_round amount (digits c))
          then (Returned (Some (balance_of_row
                   (debit_row c (debit_amount amount (digits c)) now row))),
                s\<lparr>user_balances := (user_balances s)(u \<mapsto>
                     debit_row c (debit_amount amount (digits c)) now row)\<rparr>)
          else (after_miss c, s))"
proof (cases "user_balances s u")
  case None
  then show ?thesis
    by (cases c) (simp_all add: update_deduct_rub_def update_deduct_usdt_def after_miss_def)
next
  case (Some row)
  with wf have wfr: "wf_balance_row row" by (simp add: wf_balances_def)
  then obtain b2 b6 where b: "balance_rub row = Num b2" "balance_usdt row = Num b6"
    by (rule wf_row_nums)
  have wft: "wf_table (user_balances s)" using wf by (simp add: wf_balances_table)
  show ?thesis
  proof (cases amount)
    case NaN
    with Some b show ?thesis
      by (cases c)
        (simp_all add: update_deduct_rub_def update_deduct_usdt_def after_miss_def
          amount_in_def)
  next
    case (Num x)
    with ok have pos: "0 < x" by simp
    show ?thesis
    proof (cases c)
      case Rub
      show ?thesis
        using Some b update_deduct_rub_num [OF wft pos, of now u]
        by (simp add: Rub Num digits_def amount_in_def after_miss_def debit_row_def)
    next
      case Usdt
      show ?thesis
        using Some b update_deduct_usdt_num [OF wft pos, of now u]
        by (simp add: Usdt Num digits_def amount_in_def after_miss_def debit_row_def)
    qed
  qed
qed

text \<open>A row of such a store that matches: the amount is a number, and the balance is at
  least the rounded amount.\<close>

lemma matching_row:
  assumes wf: "wf_balance_row row" and ok: "\<not> py_le amount (Num 0)"
    and ge: "sql_ge (amount_in c row) (py_round amount (digits c))"
  obtains x m where "amount = Num x" "0 < x"
    "debit_amount amount (digits c) = of_int m / 10 ^ digits c"
    "0 \<le> debit_amount amount (digits c)"
    "debit_amount amount (digits c) \<le> val (amount_in c row)"
    "amount_in c row = Num (val (amount_in c row))"
proof -
  from wf obtain b2 b6 where b: "balance_rub row = Num b2" "balance_usdt row = Num b6"
    by (rule wf_row_nums)
  then obtain v where v: "amount_in c row = Num v" by (cases c) (simp_all add: amount_in_def)
  from ge v obtain x where x: "amount = Num x" by (cases amount) simp_all
  with ok have pos: "0 < x" by simp
  obtain m where m: "round_decimal x (digits c) = of_int m / 10 ^ digits c"
    "0 \<le> round_decimal x (digits c)"
    using pos by (rule round_decimal_amount)
  from ge have le: "dbl (round_decimal x (digits c)) \<le> val (amount_in c row)"
    by (simp add: x v)
  have "round_decimal x (digits c) \<le> val (amount_in c row)"
  proof (cases c)
    case Rub
    with le deduct_rub_row(2) [OF wf pos] show ?thesis by (simp add: digits_def amount_in_def)
  next
    case Usdt
    with le deduct_usdt_row(2) [OF wf pos] show ?thesis by (simp add: digits_def amount_in_def)
  qed
  with that [OF x pos] m v show ?thesis by (simp add: x)
qed

lemma inv_silent:
  assumes "conc_inv s0 s (xs @ (call, p) # ys)"
    and "\<not> succeeded p" "\<not> succeeded p'" "call_ok s0 s (call, p')"
  shows "conc_inv s0 s (xs @ (call, p') # ys)"
  using assms by (cases call) (auto simp: conc_inv_def debited_simps)

lemma inv_debit:
  assumes inv: "conc_inv s0 s (xs @ ((c, u, amount), Updating a) # ys)"
    and ok: "\<not> py_le amount (Num 0)"
    and row: "user_balances s u = Some row"
    and ge: "sql_ge (amount_in c row) (py_round amount (digits c))"
    and d: "d = debit_amount amount (digits c)"
    and s': "s' = s\<lparr>user_balances := (user_balances s)(u \<mapsto> debit_row c d now row)\<rparr>"
    and b: "b = balance_of_row (debit_row c d now row)"
  shows "conc_inv s0 s' (xs @ ((c, u, amount), Returned (Some b)) # ys)"
proof -
  from inv have en: "db_enabled s" and wf: "wf_balances s"
    and dom: "\<forall>u. user_balances s u = None \<longleftrightarrow> user_balances s0 u = None"
    and oks: "\<forall>x \<in> set xs \<union> set ys. call_ok s0 s x"
    and cons: "\<forall>c' u'. stored c' s u'
                 + debited c' u' (xs @ ((c, u, amount), Updating a) # ys) = stored c' s0 u'"
    by (auto simp: conc_inv_def)
  from wf row have wfr: "wf_balance_row row" by (simp add: wf_balances_def)
  obtain x m where x: "amount = Num x" "0 < x"
    and m: "d = of_int m / 10 ^ digits c" and d0: "0 \<le> d"
    and le: "d \<le> val (amount_in c row)"
    and num: "amount_in c row = Num (val (amount_in c row))"
    using matching_row [OF wfr ok ge] unfolding d by blast
  have st: "stored c' s' u' = (if c' = c \<and> u' = u then stored c s u - d else stored c' s u')"
    for c' u'
    using row by (cases c; cases c') (auto simp: s' stored_def amount_in_def debit_row_def)
  have mono: "\<forall>c' u'. stored c' s' u' \<le> stored c' s u'" using st d0 by simp
  have none: "\<forall>u'. user_balances s' u' = None \<longleftrightarrow> user_balances s u' = None"
    using row by (simp add: s')
  have wfr': "wf_balance_row (debit_row c d now row)"
    using wfr m d0 le by (rule wf_after_debit)
  have wf': "wf_balances s'"
    using wf wfr' by (simp add: wf_balances_def s')
  have ok': "\<forall>x \<in> set xs \<union> set ys. call_ok s0 s' x"
    using oks mono none by (blast intro: call_ok_mono)
  have rest: "0 \<le> debited c u xs" "0 \<le> debited c u ys"
    using oks by (auto intro: debited_nonneg)
  from cons have "stored c s u + debited c u (xs @ ((c, u, amount), Updating a) # ys)
      = stored c s0 u" by blast
  then have below: "stored c s u \<le> stored c s0 u"
    using rest by (simp add: debited_simps)
  have bval: "amount_in c b = Num (dbl (stored c s u - d))"
    using row by (cases c) (simp_all add: b amount_in_def debit_row_def stored_def
        balance_of_row_def)
  have new: "call_ok s0 s' ((c, u, amount), Returned (Some b))"
  proof -
    have "amount_in c b = Num (dbl (stored c s u - d)) \<and> stored c s' u \<le> stored c s u - d
        \<and> (stored c s u - d) + debit_amount amount (digits c) \<le> stored c s0 u"
      using bval below by (simp add: st d)
    then show ?thesis using ok by auto
  qed
  have cons': "\<forall>c' u'. stored c' s' u'
                 + debited c' u' (xs @ ((c, u, amount), Returned (Some b)) # ys) = stored c' s0 u'"
  proof (intro allI)
    fix c' u'
    from cons have "stored c' s u'
        + debited c' u' (xs @ ((c, u, amount), Updating a) # ys) = stored c' s0 u'" by blast
    then show "stored c' s' u'
        + debited c' u' (xs @ ((c, u, amount), Returned (Some b)) # ys) = stored c' s0 u'"
      by (auto simp: debited_simps st d)
  qed
  show ?thesis
    unfolding conc_inv_def
    using en wf' none dom ok' new cons' by (auto simp: s')
qed

lemma miss_ok:
  assumes ok: "\<not> py_le amount (Num 0)"
    and miss: "user_balances s u = None
               \<or> (\<exists>row. user_balances s u = Some row
                    \<and> \<not> sql_ge (amount_in c row) (py_round amount (digits c))
                    \<and> amount_in c row = Num (val (amount_in c row)))"
  shows "call_ok s0 s ((c, u, amount), after_miss c)"
proof -
  have "user_balances s u = None
      \<or> \<not> sql_ge (Num (stored c s u)) (py_round amount (digits c))"
    using miss by (auto simp: stored_def)
  then show ?thesis using ok by (cases c) (simp_all add: after_miss_def)
qed

lemma conc_step_inv:
  assumes step: "conc_step (s, cs) (s', cs')" and inv: "conc_inv s0 s cs"
  shows "conc_inv s0 s' cs'"
  using step
proof (cases rule: conc_step.cases)
  case (call_steps p now call p' xs ys)
  obtain c u amount where call: "call = (c, u, amount)" by (cases call) auto
  from inv have en: "db_enabled s" and wf: "wf_balances s"
    and okp: "call_ok s0 s (call, p)"
    by (auto simp: conc_inv_def call_steps)
  have not_succ: "\<not> succeeded (after_miss c)" by (cases c) (simp_all add: after_miss_def)
  show ?thesis
  proof (cases p)
    case Called
    with call_steps en call have "s' = s"
      and "p' = (if py_le amount (Num 0) then Returned None
                 else Updating (py_round amount (digits c)))"
      by (auto split: if_splits)
    then show ?thesis
      using inv inv_silent [of s0 s xs call p ys p'] call_steps call Called
      by (auto split: if_splits)
  next
    case (Updating a)
    with okp call have ok: "\<not> py_le amount (Num 0)" and a: "a = py_round amount (digits c)"
      by simp_all
    note us = update_step [OF wf ok, of now c u]
    show ?thesis
    proof (cases "user_balances s u")
      case None
      with us call_steps call Updating a have "s' = s" "p' = after_miss c" by simp_all
      moreover have "call_ok s0 s (call, after_miss c)"
        unfolding call using ok None by (intro miss_ok) simp_all
      ultimately show ?thesis
        using inv inv_silent [of s0 s xs call p ys p'] call_steps Updating not_succ by simp
    next
      case (Some row)
      with wf have wfr: "wf_balance_row row" by (simp add: wf_balances_def)
      then have num: "amount_in c row = Num (val (amount_in c row))"
        using fits_nonneg [of 12 2 "balance_rub row"] fits_nonneg [of 12 6 "balance_usdt row"]
        by (cases c) (simp_all add: wf_balance_row_def amount_in_def)
      show ?thesis
      proof (cases "sql_ge (amount_in c row) (py_round amount (digits c))")
        case True
        with us call_steps call Updating a Some
        have "s' = s\<lparr>user_balances := (user_balances s)(u \<mapsto>
                  debit_row c (debit_amount amount (digits c)) now row)\<rparr>"
          and "p' = Returned (Some (balance_of_row
                  (debit_row c (debit_amount amount (digits c)) now row)))"
          by simp_all
        then show ?thesis
          using inv inv_debit [OF _ ok Some True refl, of s0 xs a ys s' now] call_steps call
            Updating
          by simp
      next
        case False
        with us call_steps call Updating a Some have "s' = s" "p' = after_miss c" by simp_all
        moreover have "call_ok s0 s (call, after_miss c)"
          unfolding call using ok Some False num by (intro miss_ok) simp_all
        ultimately show ?thesis
          using inv inv_silent [of s0 s xs call p ys p'] call_steps Updating not_succ by simp
      qed
    qed
  next
    case Selecting
    with call_steps call have "s' = s" "p' = Returned None" by (simp_all add: Let_def)
    moreover have "call_ok s0 s (call, Returned None)"
      using okp Selecting call by auto
    ultimately show ?thesis
      using inv inv_silent [of s0 s xs call p ys p'] call_steps Selecting by simp
  next
    case (Returned r)
    with call_steps show ?thesis by simp
  next
    case (Raised e)
    with call_steps show ?thesis by simp
  qed
qed

lemma conc_run_inv:
  "conc_run n conf conf' \<Longrightarrow> conc_inv s0 (fst conf) (snd conf)
     \<Longrightarrow> conc_inv s0 (fst conf') (snd conf')"
proof (induction rule: conc_run.induct)
  case (run_nil conf)
  then show ?case .
next
  case (run_step n conf conf' conf'')
  then have "conc_inv s0 (fst conf') (snd conf')" by simp
  moreover have "conc_step (fst conf', snd conf') (fst conf'', snd conf'')"
    using run_step.hyps(2) by simp
  ultimately show ?case by (rule conc_step_inv [rotated])
qed

lemma conc_inv_start:
  "db_enabled s \<Longrightarrow> wf_balances s \<Longrightarrow> conc_inv s s (start calls)"
proof -
  have "debited c u (start calls) = 0" for c u
    by (induction calls) (auto simp: start_def debited_def)
  moreover have "\<forall>x \<in> set (start calls). call_ok s s x"
    by (auto simp: start_def)
  ultimately show "db_enabled s \<Longrightarrow> wf_balances s \<Longrightarrow> conc_inv s s (start calls)"
    by (simp add: conc_inv_def)
qed

lemma conc_step_calls: "conc_step (s, cs) (s', cs') \<Longrightarrow> map fst cs' = map fst cs"
  by (auto elim: conc_step.cases)

lemma conc_run_calls: "conc_run n conf conf' \<Longrightarrow> map fst (snd conf') = map fst (snd conf)"
proof (induction rule: conc_run.induct)
  case (run_nil conf)
  show ?case by simp
next
  case (run_step n conf conf' conf'')
  from run_step.hyps(2) have "conc_step (fst conf', snd conf') (fst conf'', snd conf'')"
    by simp
  then have "map fst (snd conf'') = map fst (snd conf')" by (rule conc_step_calls)
  with run_step.IH show ?case by simp
qed

lemma call_step_left:
  "\<not> finished p \<Longrightarrow> call_step now s call p = (p', s') \<Longrightarrow> steps_left p' < steps_left p"
  by (cases "(now, s, call, p)" rule: call_step.cases)
    (auto simp: Let_def split: if_splits sum.splits option.splits prod.splits)

lemma conc_step_left: "conc_step (s, cs) (s', cs') \<Longrightarrow> total_left cs' < total_left cs"
  by (auto elim!: conc_step.cases simp: total_left_def dest: call_step_left)

lemma conc_run_left:
  "conc_run n conf conf' \<Longrightarrow> n + total_left (snd conf') \<le> total_left (snd conf)"
proof (induction rule: conc_run.induct)
  case (run_nil conf)
  show ?case by simp
next
  case (run_step n conf conf' conf'')
  from run_step.hyps(2) have "conc_step (fst conf', snd conf') (fst conf'', snd conf'')"
    by simp
  then have "total_left (snd conf'') < total_left (snd conf')" by (rule conc_step_left)
  with run_step.IH show ?case by simp
qed

lemma total_left_start: "total_left (start calls) = 3 * length calls"
  by (induction calls) (simp_all add: total_left_def start_def)

lemma conc_progress:
  assumes "\<not> (\<forall>x \<in> set cs. finished (snd x))"
  shows "\<exists>conf. conc_step (s, cs) conf"
proof -
  from assms obtain call p where "(call, p) \<in> set cs" "\<not> finished p" by auto
  then obtain xs ys where "cs = xs @ (call, p) # ys" by (auto dest: split_list)
  moreover obtain p' s' where "call_step 0 s call p = (p', s')" by (cases "call_step 0 s call p")
  ultimately show ?thesis using \<open>\<not> finished p\<close> by (blast intro: conc_step.intros)
qed

lemma call_ok_not_raised: "call_ok s0 s x \<Longrightarrow> snd x \<noteq> Raised e"
proof -
  obtain c u amount p where "x = ((c, u, amount), p)" by (cases x) auto
  then show "call_ok s0 s x \<Longrightarrow> snd x \<noteq> Raised e" by auto
qed

lemma round_decimal_60: "round_decimal 60 2 = 60"
  by (simp add: round_decimal_def round_half_even_def)

lemma dbl_60: "dbl 60 = 60"
  by (simp add: dbl_numeral)

lemma two_debits_of_60:
  assumes inv: "conc_inv s s' cs"
    and calls: "map fst cs = [(Rub, u, Num 60), (Rub, u, Num 60)]"
    and row: "user_balances s u \<noteq> None" and v: "stored Rub s u = 100"
    and fin: "\<forall>x \<in> set cs. finished (snd x)"
  shows "stored Rub s' u = 40
       \<and> (\<exists>b. balance_rub b = Num 40
             \<and> (map snd cs = [Returned (Some b), Returned None]
                \<or> map snd cs = [Returned None, Returned (Some b)]))"
proof -
  from calls obtain p1 p2 where cs: "cs = [((Rub, u, Num 60), p1), ((Rub, u, Num 60), p2)]"
    by (cases cs; cases "tl cs") auto
  from inv have ok: "call_ok s s' ((Rub, u, Num 60), p1)" "call_ok s s' ((Rub, u, Num 60), p2)"
    and cons: "stored Rub s' u + debited Rub u cs = stored Rub s u"
    and wf: "wf_balances s'"
    and dom: "user_balances s' u \<noteq> None"
    using row by (auto simp: conc_inv_def cs)
  from wf have nonneg: "0 \<le> stored Rub s' u" by (rule stored_nonneg)
  from fin ok obtain r1 r2 where r: "p1 = Returned r1" "p2 = Returned r2"
    by (cases p1; cases p2) (auto simp: cs)
  have f40: "dbl 40 = 40" by (simp add: dbl_numeral)
  have none: "stored Rub s' u < 60" if "call_ok s s' ((Rub, u, Num 60), Returned None)"
    using that dom by (simp add: digits_def round_decimal_60 dbl_60)
  have some: "\<exists>w. balance_rub b = Num (dbl w) \<and> stored Rub s' u \<le> w \<and> w + 60 \<le> 100"
    if "call_ok s s' ((Rub, u, Num 60), Returned (Some b))" for b
    using that v by (auto simp: digits_def round_decimal_60 amount_in_def)
  show ?thesis
  proof (cases r1)
    case None
    note r1 = this
    show ?thesis
    proof (cases r2)
      case None
      with r1 ok r none cons v show ?thesis
        by (simp add: cs debited_simps)
    next
      case (Some b)
      with r1 r cons v have st: "stored Rub s' u = 40"
        by (simp add: cs debited_simps digits_def round_decimal_60)
      from Some r ok(2) some obtain w
        where w: "balance_rub b = Num (dbl w)" "stored Rub s' u \<le> w" "w + 60 \<le> 100" by blast
      with st have "w = 40" by simp
      with w f40 st r r1 Some show ?thesis by (simp add: cs)
    qed
  next
    case (Some b)
    note r1 = this
    show ?thesis
    proof (cases r2)
      case None
      with r1 r cons v have st: "stored Rub s' u = 40"
        by (simp add: cs debited_simps digits_def round_decimal_60)
      from r1 r ok(1) some obtain w
        where w: "balance_rub b = Num (dbl w)" "stored Rub s' u \<le> w" "w + 60 \<le> 100" by blast
      with st have "w = 40" by simp
      with w f40 st r r1 None show ?thesis by (simp add: cs)
    next
      case (Some b')
      with r1 r cons v nonneg show ?thesis
        by (simp add: cs debited_simps digits_def round_decimal_60)
    qed
  qed
qed

text \<open>
  C3, as amended. Take any \<open>N\<close> debit calls on an enabled store (its balances fitting
  their columns) and any run of the
  system, that is any interleaving of their statements. No call raises; the run has at most
  \<open>3N\<close> steps and can go on as long as a call has not finished, so every call ends with
  a balance or with \<open>None\<close>. For every user and currency the rounded amounts of the
  calls that returned a balance add up to at most the balance \<open>V\<close> the run started
  from, and the stored balance is \<open>V\<close> less that sum; the balances still fit their
  columns. In particular, from \<open>balance_rub = 100.00\<close>, once two concurrent
  \<^verbatim>\<open>balance_deduct_rub(60.00)\<close> have finished, one has returned a balance with rub
  40.00, the other \<open>None\<close>, and 40.00 is stored.
\<close>

theorem concurrent_debits:
  assumes en: "db_enabled s" and wf: "wf_balances s"
    and run: "conc_run n (s, start calls) (s', cs)"
  shows "map fst cs = calls
       \<and> n \<le> 3 * length calls
       \<and> (\<forall>x \<in> set cs. \<forall>e. snd x \<noteq> Raised e)
       \<and> ((\<forall>x \<in> set cs. finished (snd x)) \<or> (\<exists>conf. conc_step (s', cs) conf))
       \<and> (\<forall>c u. debited c u cs \<le> stored c s u
                \<and> stored c s' u = stored c s u - debited c u cs)
       \<and> wf_balances s'
       \<and> (calls = [(Rub, u, Num 60), (Rub, u, Num 60)] \<and> user_balances s u \<noteq> None
            \<and> stored Rub s u = 100 \<and> (\<forall>x \<in> set cs. finished (snd x))
          \<longrightarrow> stored Rub s' u = 40
              \<and> (\<exists>b. balance_rub b = Num 40
                    \<and> (map snd cs = [Returned (Some b), Returned None]
                       \<or> map snd cs = [Returned None, Returned (Some b)])))"
proof -
  have inv: "conc_inv s s' cs"
    using conc_run_inv [OF run, of s] conc_inv_start [OF en wf] by simp
  have calls: "map fst cs = calls"
    using conc_run_calls [OF run] by (simp add: start_def comp_def)
  have bound: "n \<le> 3 * length calls"
    using conc_run_left [OF run] by (simp add: total_left_start)
  have raised: "\<forall>x \<in> set cs. \<forall>e. snd x \<noteq> Raised e"
  proof (intro ballI allI notI)
    fix x e assume "x \<in> set cs" "snd x = Raised e"
    moreover from this inv have "call_ok s s' x" by (simp add: conc_inv_def)
    ultimately show False by (auto dest: call_ok_not_raised)
  qed
  have progress: "(\<forall>x \<in> set cs. finished (snd x)) \<or> (\<exists>conf. conc_step (s', cs) conf)"
    using conc_progress [of cs s'] by blast
  have wf': "wf_balances s'" using inv by (simp add: conc_inv_def)
  have sums: "\<forall>c u. debited c u cs \<le> stored c s u
                \<and> stored c s' u = stored c s u - debited c u cs"
  proof (intro allI)
    fix c u
    from inv have "stored c s' u + debited c u cs = stored c s u"
      by (simp_all add: conc_inv_def)
    moreover from wf' have "0 \<le> stored c s' u" by (rule stored_nonneg)
    ultimately show "debited c u cs \<le> stored c s u
                \<and> stored c s' u = stored c s u - debited c u cs" by simp
  qed
  have scenario: "calls = [(Rub, u, Num 60), (Rub, u, Num 60)] \<and> user_balances s u \<noteq> None
            \<and> stored Rub s u = 100 \<and> (\<forall>x \<in> set cs. finished (snd x))
          \<longrightarrow> stored Rub s' u = 40
              \<and> (\<exists>b. balance_rub b = Num 40
                    \<and> (map snd cs = [Returned (Some b), Returned None]
                       \<or> map snd cs = [Returned None, Returned (Some b)]))"
  proof (intro impI)
    assume h: "calls = [(Rub, u, Num 60), (Rub, u, Num 60)] \<and> user_balances s u \<noteq> None
            \<and> stored Rub s u = 100 \<and> (\<forall>x \<in> set cs. finished (snd x))"
    with calls have "map fst cs = [(Rub, u, Num 60), (Rub, u, Num 60)]" by simp
    from two_debits_of_60 [OF inv this] h
    show "stored Rub s' u = 40
              \<and> (\<exists>b. balance_rub b = Num 40
                    \<and> (map snd cs = [Returned (Some b), Returned None]
                       \<or> map snd cs = [Returned None, Returned (Some b)]))"
      by simp
  qed
  show ?thesis
    by (intro conjI calls bound raised progress sums wf' scenario)
qed

lemma conc_run_next:
  "conc_run n conf conf' \<Longrightarrow> conc_step conf' conf'' \<Longrightarrow> Suc n = m \<Longrightarrow> conc_run m conf conf''"
  by (auto intro: conc_run.run_step)

lemma wf_balances_100: "wf_balances (single_balance ''u'' (Num 100) (Num 0))"
  by (rule wf_single_row; simp add: numeric_def round_half_away_def)

lemma run_two_debits:
  "conc_run 5 (single_balance ''u'' (Num 100) (Num 0),
               start [(Rub, ''u'', Num 60), (Rub, ''u'', Num 60)])
     (single_balance ''u'' (Num 40) (Num 0),
      [((Rub, ''u'', Num 60), Returned None),
       ((Rub, ''u'', Num 60), Returned (Some \<lparr>balance_rub = Num 40, balance_usdt = Num 0\<rparr>))])"
proof -
  let ?c = "(Rub, ''u'', Num 60)"
  let ?s = "single_balance ''u'' (Num 100) (Num 0)"
  let ?t = "single_balance ''u'' (Num 40) (Num 0)"
  let ?b = "\<lparr>balance_rub = Num 40, balance_usdt = Num 0\<rparr> :: balance"
  have f: "dbl 40 = 40" by (simp add: dbl_numeral)
  have upd: "call_step 0 ?s ?c (Updating (Num 60)) = (Returned (Some ?b), ?t)"
    by (simp add: update_deduct_rub_def set_balance_rub_def check_balance_row_def numeric_def
        round_half_away_def single_balance_def balance_of_row_def f dbl_zero)
  have miss: "call_step 0 ?t ?c (Updating (Num 60)) = (Selecting, ?t)"
    by (simp add: update_deduct_rub_def single_balance_def)
  have s1: "conc_step (?s, [(?c, Called), (?c, Called)])
              (?s, [(?c, Updating (Num 60)), (?c, Called)])"
    using conc_step.intros [of Called 0 ?s ?c "Updating (Num 60)" ?s "[]" "[(?c, Called)]"]
    by (simp add: digits_def round_decimal_60 dbl_60 single_balance_def)
  have s2: "conc_step (?s, [(?c, Updating (Num 60)), (?c, Called)])
              (?s, [(?c, Updating (Num 60)), (?c, Updating (Num 60))])"
    using conc_step.intros [of Called 0 ?s ?c "Updating (Num 60)" ?s
        "[(?c, Updating (Num 60))]" "[]"]
    by (simp add: digits_def round_decimal_60 dbl_60 single_balance_def)
  have s3: "conc_step (?s, [(?c, Updating (Num 60)), (?c, Updating (Num 60))])
              (?t, [(?c, Updating (Num 60)), (?c, Returned (Some ?b))])"
    using conc_step.intros [of "Updating (Num 60)" 0 ?s ?c "Returned (Some ?b)" ?t
        "[(?c, Updating (Num 60))]" "[]"] upd
    by simp
  have s4: "conc_step (?t, [(?c, Updating (Num 60)), (?c, Returned (Some ?b))])
              (?t, [(?c, Selecting), (?c, Returned (Some ?b))])"
    using conc_step.intros [of "Updating (Num 60)" 0 ?t ?c Selecting ?t
        "[]" "[(?c, Returned (Some ?b))]"] miss
    by simp
  have s5: "conc_step (?t, [(?c, Selecting), (?c, Returned (Some ?b))])
              (?t, [(?c, Returned None), (?c, Returned (Some ?b))])"
    using conc_step.intros [of Selecting 0 ?t ?c "Returned None" ?t
        "[]" "[(?c, Returned (Some ?b))]"]
    by (simp add: Let_def)
  have "conc_run 0 (?s, [(?c, Called), (?c, Called)]) (?s, [(?c, Called), (?c, Called)])"
    by (rule conc_run.run_nil)
  from this s1 have "conc_run 1 (?s, [(?c, Called), (?c, Called)])
      (?s, [(?c, Updating (Num 60)), (?c, Called)])"
    by (rule conc_run_next) simp
  from this s2 have "conc_run 2 (?s, [(?c, Called), (?c, Called)])
      (?s, [(?c, Updating (Num 60)), (?c, Updating (Num 60))])"
    by (rule conc_run_next) simp
  from this s3 have "conc_run 3 (?s, [(?c, Called), (?c, Called)])
      (?t, [(?c, Updating (Num 60)), (?c, Returned (Some ?b))])"
    by (rule conc_run_next) simp
  from this s4 have "conc_run 4 (?s, [(?c, Called), (?c, Called)])
      (?t, [(?c, Selecting), (?c, Returned (Some ?b))])"
    by (rule conc_run_next) simp
  from this s5 have "conc_run 5 (?s, [(?c, Called), (?c, Called)])
      (?t, [(?c, Returned None), (?c, Returned (Some ?b))])"
    by (rule conc_run_next) simp
  then show ?thesis by (simp add: start_def)
qed

text \<open>The run of \<open>run_two_debits\<close>: both calls round their amount, the second call's
  \<^verbatim>\<open>UPDATE\<close> goes first, the first call's \<^verbatim>\<open>UPDATE\<close> then matches no row.\<close>

theorem concurrent_debits_witness:
  "db_enabled (single_balance ''u'' (Num 100) (Num 0))
   \<and> wf_balances (single_balance ''u'' (Num 100) (Num 0))
   \<and> conc_run 5 (single_balance ''u'' (Num 100) (Num 0),
                  start [(Rub, ''u'', Num 60), (Rub, ''u'', Num 60)])
       (single_balance ''u'' (Num 40) (Num 0),
        [((Rub, ''u'', Num 60), Returned None),
         ((Rub, ''u'', Num 60),
          Returned (Some \<lparr>balance_rub = Num 40, balance_usdt = Num 0\<rparr>))])
   \<and> debited Rub ''u''
        [((Rub, ''u'', Num 60), Returned None),
         ((Rub, ''u'', Num 60),
          Returned (Some \<lparr>balance_rub = Num 40, balance_usdt = Num 0\<rparr>))]
       \<le> stored Rub (single_balance ''u'' (Num 100) (Num 0)) ''u''
   \<and> stored Rub (single_balance ''u'' (Num 40) (Num 0)) ''u'' = 40"
proof -
  have en: "db_enabled (single_balance ''u'' (Num 100) (Num 0))"
    by (simp add: single_balance_def)
  have v: "user_balances (single_balance ''u'' (Num 100) (Num 0)) ''u'' \<noteq> None"
    "stored Rub (single_balance ''u'' (Num 100) (Num 0)) ''u'' = 100"
    by (simp_all add: single_balance_def stored_def amount_in_def)
  show ?thesis
    using en wf_balances_100 run_two_debits v
      concurrent_debits [OF en wf_balances_100 run_two_debits, of "''u''"]
    by (simp add: debited_def digits_def round_decimal_60 stored_def amount_in_def
        single_balance_def)
qed

text \<open>C3 as stated fails: a single call with the amount \<^verbatim>\<open>1.004\<close> succeeds on a
  balance of 1.00, so the amounts of the successful debits add up to more than the
  balance.\<close>

theorem concurrent_debit_exceeds_balance:
  "conc_run 2 (single_balance ''u'' (Num 1) (Num 0), start [(Rub, ''u'', py_float 1.004)])
     (single_balance ''u'' (Num 0) (Num 0),
      [((Rub, ''u'', py_float 1.004),
        Returned (Some \<lparr>balance_rub = Num 0, balance_usdt = Num 0\<rparr>))])
   \<and> py_le (Num (stored Rub (single_balance ''u'' (Num 1) (Num 0)) ''u'')) (py_float 1.004)
   \<and> \<not> py_le (py_float 1.004) (Num (stored Rub (single_balance ''u'' (Num 1) (Num 0)) ''u''))"
proof -
  let ?a = "Num (2260807012939989 / 2251799813685248)"
  let ?c = "(Rub, ''u'', ?a)"
  let ?s = "single_balance ''u'' (Num 1) (Num 0)"
  let ?t = "single_balance ''u'' (Num 0) (Num 0)"
  let ?b = "\<lparr>balance_rub = Num 0, balance_usdt = Num 0\<rparr> :: balance"
  have r: "round_decimal (2260807012939989 / 2251799813685248) 2 = 1"
    by (simp add: round_decimal_def round_half_even_def)
  have upd: "call_step 0 ?s ?c (Updating (Num 1)) = (Returned (Some ?b), ?t)"
    by (simp add: update_deduct_rub_def set_balance_rub_def check_balance_row_def numeric_def
        round_half_away_def single_balance_def balance_of_row_def dbl_zero)
  have s1: "conc_step (?s, [(?c, Called)]) (?s, [(?c, Updating (Num 1))])"
    using conc_step.intros [of Called 0 ?s ?c "Updating (Num 1)" ?s "[]" "[]"] r
    by (simp add: digits_def single_balance_def dbl_one)
  have s2: "conc_step (?s, [(?c, Updating (Num 1))]) (?t, [(?c, Returned (Some ?b))])"
    using conc_step.intros [of "Updating (Num 1)" 0 ?s ?c "Returned (Some ?b)" ?t "[]" "[]"] upd
    by simp
  have "conc_run 0 (?s, [(?c, Called)]) (?s, [(?c, Called)])"
    by (rule conc_run.run_nil)
  from this s1 have "conc_run 1 (?s, [(?c, Called)]) (?s, [(?c, Updating (Num 1))])"
    by (rule conc_run_next) simp
  from this s2 have "conc_run 2 (?s, [(?c, Called)]) (?t, [(?c, Returned (Some ?b))])"
    by (rule conc_run_next) simp
  then show ?thesis
    unfolding py_float_def dbl_1_004
    by (simp add: start_def single_balance_def stored_def amount_in_def)
qed


end
